theory Spec2Isabelle
  imports Complex_Main "HOL-Library.Word"
begin

unbundle bit_operations_syntax

section \<open>JavaScript numbers\<close>

text \<open>
  A JavaScript number is an IEEE-754 double.  The model keeps the three special values
  apart from the finite ones and computes on the finite ones exactly: rounding, overflow
  and the sign of zero are not modelled.  Comparisons with \<open>NaN\<close> are false, as in the
  language.
\<close>

datatype jsnum = Fin real | PosInf | NegInf | NaN

fun isFinite :: "jsnum \<Rightarrow> bool" where
  "isFinite (Fin _) = True"
| "isFinite _ = False"

fun isNaN :: "jsnum \<Rightarrow> bool" where
  "isNaN NaN = True"
| "isNaN _ = False"

fun num_neg :: "jsnum \<Rightarrow> jsnum" where
  "num_neg (Fin a) = Fin (- a)"
| "num_neg PosInf = NegInf"
| "num_neg NegInf = PosInf"
| "num_neg NaN = NaN"

fun num_add :: "jsnum \<Rightarrow> jsnum \<Rightarrow> jsnum" where
  "num_add NaN _ = NaN"
| "num_add _ NaN = NaN"
| "num_add (Fin a) (Fin b) = Fin (a + b)"
| "num_add (Fin _) PosInf = PosInf"
| "num_add (Fin _) NegInf = NegInf"
| "num_add PosInf (Fin _) = PosInf"
| "num_add NegInf (Fin _) = NegInf"
| "num_add PosInf PosInf = PosInf"
| "num_add NegInf NegInf = NegInf"
| "num_add PosInf NegInf = NaN"
| "num_add NegInf PosInf = NaN"

definition num_sub :: "jsnum \<Rightarrow> jsnum \<Rightarrow> jsnum" where
  "num_sub a b = num_add a (num_neg b)"

text \<open>The sign of an infinity scaled by a finite factor; \<open>0 * Infinity\<close> is \<open>NaN\<close>.\<close>

definition signed_inf :: "real \<Rightarrow> jsnum" where
  "signed_inf a = (if a = 0 then NaN else if 0 < a then PosInf else NegInf)"

fun num_mul :: "jsnum \<Rightarrow> jsnum \<Rightarrow> jsnum" where
  "num_mul NaN _ = NaN"
| "num_mul _ NaN = NaN"
| "num_mul (Fin a) (Fin b) = Fin (a * b)"
| "num_mul (Fin a) PosInf = signed_inf a"
| "num_mul (Fin a) NegInf = signed_inf (- a)"
| "num_mul PosInf (Fin b) = signed_inf b"
| "num_mul NegInf (Fin b) = signed_inf (- b)"
| "num_mul PosInf PosInf = PosInf"
| "num_mul NegInf NegInf = PosInf"
| "num_mul PosInf NegInf = NegInf"
| "num_mul NegInf PosInf = NegInf"

text \<open>
  Division.  A finite zero divisor is read as \<open>+0\<close>; the program never divides by zero
  (every division is guarded or has a non-zero constant divisor).
\<close>

fun num_div :: "jsnum \<Rightarrow> jsnum \<Rightarrow> jsnum" where
  "num_div NaN _ = NaN"
| "num_div _ NaN = NaN"
| "num_div (Fin a) (Fin b) = (if b = 0 then signed_inf a else Fin (a / b))"
| "num_div (Fin _) PosInf = Fin 0"
| "num_div (Fin _) NegInf = Fin 0"
| "num_div PosInf (Fin b) = (if 0 \<le> b then PosInf else NegInf)"
| "num_div NegInf (Fin b) = (if 0 \<le> b then NegInf else PosInf)"
| "num_div PosInf PosInf = NaN"
| "num_div PosInf NegInf = NaN"
| "num_div NegInf PosInf = NaN"
| "num_div NegInf NegInf = NaN"

fun num_lt :: "jsnum \<Rightarrow> jsnum \<Rightarrow> bool" where
  "num_lt NaN _ = False"
| "num_lt _ NaN = False"
| "num_lt (Fin a) (Fin b) = (a < b)"
| "num_lt (Fin _) PosInf = True"
| "num_lt (Fin _) NegInf = False"
| "num_lt PosInf _ = False"
| "num_lt NegInf NegInf = False"
| "num_lt NegInf _ = True"

definition num_gt :: "jsnum \<Rightarrow> jsnum \<Rightarrow> bool" where
  "num_gt a b = num_lt b a"

instantiation jsnum :: "{zero, one, plus, minus, uminus, times, inverse, ord}"
begin
definition "0 = Fin 0"
definition "1 = Fin 1"
definition "a + b = num_add a b"
definition "a - b = num_sub a b"
definition "- a = num_neg a"
definition "a * b = num_mul a b"
definition "a div b = num_div a b"
definition "inverse a = num_div (Fin 1) a"
definition "a < b \<longleftrightarrow> num_lt a b"
definition "a \<le> b \<longleftrightarrow> num_lt a b \<or> (a = b \<and> a \<noteq> NaN)"
instance ..
end

lemmas jsnum_arith =
  zero_jsnum_def one_jsnum_def plus_jsnum_def minus_jsnum_def uminus_jsnum_def
  times_jsnum_def divide_jsnum_def less_jsnum_def less_eq_jsnum_def num_sub_def num_gt_def
  signed_inf_def

text \<open>\<open>Math.min\<close> and \<open>Math.max\<close> of two numbers: \<open>NaN\<close> if either is.\<close>

definition Math_min :: "jsnum \<Rightarrow> jsnum \<Rightarrow> jsnum" where
  "Math_min a b = (if isNaN a \<or> isNaN b then NaN else if b < a then b else a)"

definition Math_max :: "jsnum \<Rightarrow> jsnum \<Rightarrow> jsnum" where
  "Math_max a b = (if isNaN a \<or> isNaN b then NaN else if a < b then b else a)"

text \<open>
  \<open>Math.hypot\<close> of three numbers: \<open>Infinity\<close> if any argument is infinite (even beside a
  \<open>NaN\<close>), else \<open>NaN\<close> if any is \<open>NaN\<close>, else the root of the sum of squares.
\<close>

fun isInfinite :: "jsnum \<Rightarrow> bool" where
  "isInfinite PosInf = True"
| "isInfinite NegInf = True"
| "isInfinite _ = False"

fun Math_hypot :: "jsnum \<Rightarrow> jsnum \<Rightarrow> jsnum \<Rightarrow> jsnum" where
  "Math_hypot (Fin a) (Fin b) (Fin c) = Fin (sqrt (a * a + b * b + c * c))"
| "Math_hypot a b c =
     (if isInfinite a \<or> isInfinite b \<or> isInfinite c then PosInf else NaN)"

text \<open>Truthiness of a number: everything but zero and \<open>NaN\<close>.\<close>

fun truthy_num :: "jsnum \<Rightarrow> bool" where
  "truthy_num (Fin a) = (a \<noteq> 0)"
| "truthy_num NaN = False"
| "truthy_num _ = True"

text \<open>The idiom \<open>x || 0\<close> on a number.\<close>

definition or_zero :: "jsnum \<Rightarrow> jsnum" where
  "or_zero x = (if truthy_num x then x else Fin 0)"


section \<open>Bytes, typed arrays and buffers\<close>

type_synonym byte = "8 word"

text \<open>A \<open>Buffer\<close> is the list of its bytes.\<close>

type_synonym Buffer = "byte list"

text \<open>
  A \<open>Float32Array\<close> is the list of its elements, each the 32-bit pattern it stores.
  Its \<open>length\<close> is the number of elements and its \<open>byteLength\<close> four times that.
\<close>

type_synonym Float32Array = "32 word list"

definition byteLength_f32 :: "Float32Array \<Rightarrow> nat" where
  "byteLength_f32 data = 4 * length data"

text \<open>The four bytes of an unsigned 32-bit value, least significant first.\<close>

definition u32le :: "nat \<Rightarrow> byte list" where
  "u32le n = [of_nat n, of_nat (n div 256), of_nat (n div 65536), of_nat (n div 16777216)]"

definition f32_bytes :: "Float32Array \<Rightarrow> Buffer" where
  "f32_bytes data = concat (map (\<lambda>w. u32le (unat w)) data)"

text \<open>
  Reading an element of a \<open>Float32Array\<close> gives the number its pattern denotes
  (binary32: one sign bit, eight exponent bits, 23 fraction bits); the conversion to a
  double is exact.
\<close>

definition f32_value :: "32 word \<Rightarrow> jsnum" where
  "f32_value w =
     (let e = unat (drop_bit 23 w AND 0xFF);
          m = unat (w AND 0x7FFFFF);
          neg = bit w 31;
          mag = (if e = 0 then real m * 2 powi (- 149)
                 else real (8388608 + m) * 2 powi (int e - 150))
      in if e = 255 then (if m = 0 then (if neg then NegInf else PosInf) else NaN)
         else Fin (if neg then - mag else mag))"

text \<open>Index access \<open>values[i]\<close>, read where a number is expected: out of range it is
  \<open>undefined\<close>, which compares as \<open>NaN\<close>.\<close>

definition f32_at :: "Float32Array \<Rightarrow> nat \<Rightarrow> jsnum" where
  "f32_at values i = (if i < length values then f32_value (values ! i) else NaN)"

section \<open>The buffer packer\<close>

record GeometryData =
  name :: string
  positions :: Float32Array
  normals :: "Float32Array option"
  colors :: "Float32Array option"
  mode :: nat

record BufferView =
  buffer :: nat
  byteOffset :: nat
  byteLength :: nat
  target :: "nat option"

record Accessor =
  bufferView :: nat
  componentType :: nat
  count :: jsnum
  type :: string
  min_bounds :: "jsnum list option"
  max_bounds :: "jsnum list option"

definition GLTF_MODE_TRIANGLES :: nat where "GLTF_MODE_TRIANGLES = 4"
definition GLTF_MODE_LINES :: nat where "GLTF_MODE_LINES = 1"
definition GLTF_COMPONENT_FLOAT :: nat where "GLTF_COMPONENT_FLOAT = 5126"
definition GLTF_TYPE_VEC3 :: string where "GLTF_TYPE_VEC3 = ''VEC3''"

definition align :: "nat \<Rightarrow> nat \<Rightarrow> nat" where
  "align v multiple =
     (let remainder = v mod multiple
      in if remainder = 0 then v else v + multiple - remainder)"

text \<open>
  \<open>addBufferView\<close> pushes onto the two arrays it is given; the model returns them
  updated, with the index of the new view and the new running length.
\<close>

definition addBufferView ::
  "Buffer list \<Rightarrow> BufferView list \<Rightarrow> Float32Array \<Rightarrow> nat \<Rightarrow> nat option
    \<Rightarrow> Buffer list \<times> BufferView list \<times> nat \<times> nat" where
  "addBufferView chunks bufferViews data currentLength tgt =
     (let offset = align currentLength 4;
          padding = offset - currentLength;
          chunks1 = (if 0 < padding then chunks @ [replicate padding 0] else chunks);
          chunks2 = chunks1 @ [f32_bytes data];
          bufferViews1 = bufferViews @
            [\<lparr>buffer = 0, byteOffset = offset, byteLength = byteLength_f32 data, target = tgt\<rparr>]
      in (chunks2, bufferViews1, length bufferViews1 - 1, offset + byteLength_f32 data))"

text \<open>
  \<open>computeMinMax\<close>: the loop steps through the array three elements at a time, starting
  from the infinities.
\<close>

definition minmax_step :: "Float32Array \<Rightarrow> (jsnum list \<times> jsnum list) \<Rightarrow> nat
    \<Rightarrow> (jsnum list \<times> jsnum list)" where
  "minmax_step values mm i =
     (let mn = fst mm; mx = snd mm;
          x = f32_at values i; y = f32_at values (i + 1); z = f32_at values (i + 2);
          mn = (if x < mn ! 0 then mn[0 := x] else mn);
          mn = (if y < mn ! 1 then mn[1 := y] else mn);
          mn = (if z < mn ! 2 then mn[2 := z] else mn);
          mx = (if mx ! 0 < x then mx[0 := x] else mx);
          mx = (if mx ! 1 < y then mx[1 := y] else mx);
          mx = (if mx ! 2 < z then mx[2 := z] else mx)
      in (mn, mx))"

function minmax_loop :: "Float32Array \<Rightarrow> nat \<Rightarrow> (jsnum list \<times> jsnum list)
    \<Rightarrow> (jsnum list \<times> jsnum list)" where
  "minmax_loop values i mm =
     (if i < length values then minmax_loop values (i + 3) (minmax_step values mm i) else mm)"
  by pat_completeness auto
termination
  by (relation "measure (\<lambda>(values, i, mm). length values - i)") auto

declare minmax_loop.simps [simp del]

definition computeMinMax :: "Float32Array \<Rightarrow> jsnum list \<times> jsnum list" where
  "computeMinMax values =
     minmax_loop values 0 ([PosInf, PosInf, PosInf], [NegInf, NegInf, NegInf])"

text \<open>
  The state of the \<open>forEach\<close> of \<open>buildGltfCore\<close>: the arrays it pushes onto and the
  running length.  A mesh is its name, the attribute table of its one primitive (in
  insertion order) and the primitive's mode; a node is its name and mesh index.
\<close>

record pack_state =
  bufferChunks :: "Buffer list"
  bufferViews :: "BufferView list"
  accessors :: "Accessor list"
  meshes :: "(string \<times> (string \<times> nat) list \<times> nat) list"
  nodes :: "(string \<times> nat) list"
  bufferLength :: nat

definition packGeometry :: "pack_state \<Rightarrow> GeometryData \<times> nat \<Rightarrow> pack_state" where
  "packGeometry st gi =
     (let geometry = fst gi; index = snd gi;
          (chunks, views, posView, len) =
            addBufferView (bufferChunks st) (bufferViews st) (positions geometry)
              (bufferLength st) (Some 34962);
          (mn, mx) = computeMinMax (positions geometry);
          positionAccessorIndex = length (accessors st);
          accs = accessors st @
            [\<lparr>bufferView = posView, componentType = GLTF_COMPONENT_FLOAT,
              count = Fin (real (length (positions geometry)) / 3), type = GLTF_TYPE_VEC3,
              min_bounds = Some mn, max_bounds = Some mx\<rparr>];
          attrs = [(''POSITION'', positionAccessorIndex)];
          (chunks, views, accs, attrs, len) =
            (case normals geometry of
               None \<Rightarrow> (chunks, views, accs, attrs, len)
             | Some ns \<Rightarrow>
                 (let (chunks, views, normalView, len) =
                        addBufferView chunks views ns len (Some 34962);
                      normalAccessorIndex = length accs
                  in (chunks, views,
                      accs @ [\<lparr>bufferView = normalView, componentType = GLTF_COMPONENT_FLOAT,
                        count = Fin (real (length ns) / 3), type = GLTF_TYPE_VEC3,
                        min_bounds = None, max_bounds = None\<rparr>],
                      attrs @ [(''NORMAL'', normalAccessorIndex)], len)));
          (chunks, views, accs, attrs, len) =
            (case colors geometry of
               None \<Rightarrow> (chunks, views, accs, attrs, len)
             | Some cs \<Rightarrow>
                 (let (chunks, views, colorView, len) =
                        addBufferView chunks views cs len (Some 34962);
                      colorAccessorIndex = length accs
                  in (chunks, views,
                      accs @ [\<lparr>bufferView = colorView, componentType = GLTF_COMPONENT_FLOAT,
                        count = Fin (real (length cs) / 3), type = GLTF_TYPE_VEC3,
                        min_bounds = None, max_bounds = None\<rparr>],
                      attrs @ [(''COLOR_0'', colorAccessorIndex)], len)))
      in \<lparr>bufferChunks = chunks, bufferViews = views, accessors = accs,
          meshes = meshes st @ [(name geometry, attrs, mode geometry)],
          nodes = nodes st @ [(name geometry, index)],
          bufferLength = len\<rparr>)"

text \<open>\<open>Buffer.concat(list, totalLength)\<close>: the chunks in order, cut or zero-filled to
  the given length.\<close>

definition Buffer_concat :: "Buffer list \<Rightarrow> nat \<Rightarrow> Buffer" where
  "Buffer_concat chunks totalLength =
     take totalLength (concat chunks) @
       replicate (totalLength - length (concat chunks)) 0"

text \<open>The scene description \<open>json\<close>, with the fields that vary.\<close>

record gltf_json =
  buffers_byteLength :: nat
  json_bufferViews :: "BufferView list"
  json_accessors :: "Accessor list"
  json_meshes :: "(string \<times> (string \<times> nat) list \<times> nat) list"
  json_nodes :: "(string \<times> nat) list"
  scene_nodes :: "nat list"

definition enumerate_from0 :: "'a list \<Rightarrow> ('a \<times> nat) list" where
  "enumerate_from0 xs = zip xs [0..<length xs]"

text \<open>
  The step of \<open>buildGltfCore\<close> after the \<open>forEach\<close>: a last chunk of zero bytes brings
  the running length to a multiple of four.
\<close>

definition padBufferEnd :: "pack_state \<Rightarrow> pack_state" where
  "padBufferEnd st =
     (let alignedLength = align (bufferLength st) 4
      in if bufferLength st < alignedLength
         then st\<lparr>bufferChunks := bufferChunks st @
                   [replicate (alignedLength - bufferLength st) 0],
                 bufferLength := alignedLength\<rparr>
         else st)"

definition buildGltfCore :: "GeometryData list \<Rightarrow> gltf_json \<times> Buffer" where
  "buildGltfCore geometries =
     (let st0 = \<lparr>bufferChunks = [], bufferViews = [], accessors = [], meshes = [],
                 nodes = [], bufferLength = 0\<rparr>;
          st = padBufferEnd (foldl packGeometry st0 (enumerate_from0 geometries));
          binary = Buffer_concat (bufferChunks st) (bufferLength st);
          json = \<lparr>buffers_byteLength = bufferLength st,
                  json_bufferViews = bufferViews st,
                  json_accessors = accessors st,
                  json_meshes = meshes st,
                  json_nodes = map (\<lambda>(node, idx). (fst node, idx)) (enumerate_from0 (nodes st)),
                  scene_nodes = map snd (enumerate_from0 (nodes st))\<rparr>
      in (json, binary))"


section \<open>JavaScript values\<close>

text \<open>
  The loosely typed inputs (\<open>unknown\<close>, \<open>any\<close>): colours, vertices and sides.  A string
  is the list of its code units, here those below 256; an object is the list of its own
  properties.
\<close>

datatype jsval =
    JUndefined
  | JNull
  | JBool bool
  | JNum jsnum
  | JStr string
  | JArr "jsval list"
  | JObj "(string \<times> jsval) list"

fun truthy :: "jsval \<Rightarrow> bool" where
  "truthy JUndefined = False"
| "truthy JNull = False"
| "truthy (JBool b) = b"
| "truthy (JNum n) = truthy_num n"
| "truthy (JStr s) = (s \<noteq> [])"
| "truthy (JArr _) = True"
| "truthy (JObj _) = True"

text \<open>Reading a named property (\<open>pos\<close>, \<open>position\<close>, \<open>color\<close>) of a value that is
  neither \<open>null\<close> nor \<open>undefined\<close>: only an object has one.\<close>

fun getProp :: "jsval \<Rightarrow> string \<Rightarrow> jsval" where
  "getProp (JObj kvs) k = (case map_of kvs k of None \<Rightarrow> JUndefined | Some v \<Rightarrow> v)"
| "getProp _ _ = JUndefined"

text \<open>Element access \<open>xs[i]\<close> on an array.\<close>

definition elem :: "jsval list \<Rightarrow> nat \<Rightarrow> jsval" where
  "elem xs i = (if i < length xs then xs ! i else JUndefined)"

subsection \<open>Strings\<close>

definition codeUnit :: "char \<Rightarrow> nat" where
  "codeUnit c = of_char c"

definition isWhiteSpace :: "char \<Rightarrow> bool" where
  "isWhiteSpace c = (codeUnit c \<in> {9, 10, 11, 12, 13, 32, 160})"

definition trimStart :: "string \<Rightarrow> string" where
  "trimStart s = dropWhile isWhiteSpace s"

definition trim :: "string \<Rightarrow> string" where
  "trim s = rev (dropWhile isWhiteSpace (rev (dropWhile isWhiteSpace s)))"

definition lowerChar :: "char \<Rightarrow> char" where
  "lowerChar c =
     (let n = codeUnit c
      in if (65 \<le> n \<and> n \<le> 90) \<or> (192 \<le> n \<and> n \<le> 222 \<and> n \<noteq> 215)
         then char_of (n + 32) else c)"

definition toLowerCase :: "string \<Rightarrow> string" where
  "toLowerCase s = map lowerChar s"

definition startsWith :: "string \<Rightarrow> string \<Rightarrow> bool" where
  "startsWith s p = (take (length p) s = p)"

definition endsWith :: "string \<Rightarrow> string \<Rightarrow> bool" where
  "endsWith s p = (length p \<le> length s \<and> drop (length s - length p) s = p)"

text \<open>\<open>s.slice(a, b)\<close> for indices that are not negative.\<close>

definition slice :: "string \<Rightarrow> nat \<Rightarrow> nat \<Rightarrow> string" where
  "slice s a b = take (b - a) (drop a s)"

text \<open>\<open>s.split(",")\<close>.\<close>

fun split_comma :: "string \<Rightarrow> string list" where
  "split_comma [] = [[]]"
| "split_comma (c # cs) =
     (if c = CHR '','' then [] # split_comma cs
      else (case split_comma cs of [] \<Rightarrow> [[c]] | p # ps \<Rightarrow> (c # p) # ps))"

text \<open>Decimal digits of an index, for template strings.\<close>

fun digits_of :: "nat \<Rightarrow> string" where
  "digits_of n = (if n < 10 then [char_of (48 + n)]
                  else digits_of (n div 10) @ [char_of (48 + n mod 10)])"

declare digits_of.simps [simp del]

subsection \<open>Conversion to number\<close>

definition isDigit :: "char \<Rightarrow> bool" where
  "isDigit c = (48 \<le> codeUnit c \<and> codeUnit c \<le> 57)"

text \<open>The value of a digit in a radix up to 16, if it is one.\<close>

definition digitValue :: "nat \<Rightarrow> char \<Rightarrow> nat option" where
  "digitValue radix c =
     (let n = codeUnit c;
          v = (if 48 \<le> n \<and> n \<le> 57 then Some (n - 48)
               else if 97 \<le> n \<and> n \<le> 102 then Some (n - 87)
               else if 65 \<le> n \<and> n \<le> 70 then Some (n - 55)
               else None)
      in case v of None \<Rightarrow> None | Some d \<Rightarrow> if d < radix then Some d else None)"

definition isRadixDigit :: "nat \<Rightarrow> char \<Rightarrow> bool" where
  "isRadixDigit radix c = (digitValue radix c \<noteq> None)"

definition radixValue :: "nat \<Rightarrow> string \<Rightarrow> nat" where
  "radixValue radix ds = foldl (\<lambda>acc c. acc * radix + the (digitValue radix c)) 0 ds"

text \<open>
  An unsigned decimal literal \<open>digits [. digits] [e [+-] digits]\<close> with at least one
  digit before the exponent, as \<open>StringToNumber\<close> reads it; \<open>None\<close> when the text is not
  one.  The value is exact.
\<close>

definition exponentPart :: "string \<Rightarrow> int option" where
  "exponentPart s =
     (if s = [] then Some 0
      else if hd s = CHR ''e'' \<or> hd s = CHR ''E'' then
        (let r = tl s;
             neg = (r \<noteq> [] \<and> hd r = CHR ''-'');
             ds = (if r \<noteq> [] \<and> (hd r = CHR ''+'' \<or> hd r = CHR ''-'') then tl r else r)
         in if ds \<noteq> [] \<and> list_all isDigit ds
            then Some (if neg then - int (radixValue 10 ds) else int (radixValue 10 ds))
            else None)
      else None)"

definition unsignedDecimal :: "string \<Rightarrow> real option" where
  "unsignedDecimal s =
     (let ip = takeWhile isDigit s;
          r1 = dropWhile isDigit s;
          dot = (r1 \<noteq> [] \<and> hd r1 = CHR ''.'');
          fp = (if dot then takeWhile isDigit (tl r1) else []);
          r2 = (if dot then dropWhile isDigit (tl r1) else r1)
      in if ip = [] \<and> fp = [] then None
         else (case exponentPart r2 of
                 None \<Rightarrow> None
               | Some e \<Rightarrow>
                   Some ((real (radixValue 10 ip) + real (radixValue 10 fp) / 10 ^ length fp)
                         * 10 powi e)))"

definition prefixedInteger :: "string \<Rightarrow> nat option" where
  "prefixedInteger s =
     (let radix = (if length s < 2 \<or> hd s \<noteq> CHR ''0'' then 0
                   else if s ! 1 = CHR ''x'' \<or> s ! 1 = CHR ''X'' then 16
                   else if s ! 1 = CHR ''o'' \<or> s ! 1 = CHR ''O'' then 8
                   else if s ! 1 = CHR ''b'' \<or> s ! 1 = CHR ''B'' then 2
                   else 0);
          ds = drop 2 s
      in if radix \<noteq> 0 \<and> ds \<noteq> [] \<and> list_all (isRadixDigit radix) ds
         then Some (radixValue radix ds) else None)"

text \<open>\<open>Number(s)\<close> for a string: the trimmed text is empty, an infinity, a prefixed
  integer or a signed decimal literal; anything else is \<open>NaN\<close>.\<close>

definition StringToNumber :: "string \<Rightarrow> jsnum" where
  "StringToNumber s =
     (let t = trim s;
          neg = (t \<noteq> [] \<and> hd t = CHR ''-'');
          u = (if t \<noteq> [] \<and> (hd t = CHR ''+'' \<or> hd t = CHR ''-'') then tl t else t)
      in if t = [] then Fin 0
         else if u = ''Infinity'' then (if neg then NegInf else PosInf)
         else (case prefixedInteger t of
                 Some n \<Rightarrow> Fin (real n)
               | None \<Rightarrow>
                   (case unsignedDecimal u of
                      Some r \<Rightarrow> Fin (if neg then - r else r)
                    | None \<Rightarrow> NaN)))"

text \<open>
  \<open>Number(v)\<close>.  An array converts through its text: the empty array is the empty
  string, a one-element array is the text of its element (empty for \<open>null\<close> and
  \<open>undefined\<close>), and a longer one has a comma in it.
\<close>

fun Number :: "jsval \<Rightarrow> jsnum" where
  "Number JUndefined = NaN"
| "Number JNull = Fin 0"
| "Number (JBool b) = Fin (if b then 1 else 0)"
| "Number (JNum n) = n"
| "Number (JStr s) = StringToNumber s"
| "Number (JObj _) = NaN"
| "Number (JArr []) = Fin 0"
| "Number (JArr [JUndefined]) = Fin 0"
| "Number (JArr [JNull]) = Fin 0"
| "Number (JArr [JBool _]) = NaN"
| "Number (JArr [JNum n]) = n"
| "Number (JArr [JStr s]) = StringToNumber s"
| "Number (JArr [JObj _]) = NaN"
| "Number (JArr [JArr xs]) = Number (JArr xs)"
| "Number (JArr (_ # _ # _)) = NaN"

text \<open>
  \<open>parseInt(s, 16)\<close>: leading white space, a sign and a \<open>0x\<close> prefix are skipped, then
  the longest run of hexadecimal digits is read; \<open>NaN\<close> when that run is empty.
\<close>

definition parseInt16 :: "string \<Rightarrow> jsnum" where
  "parseInt16 s =
     (let t = trimStart s;
          neg = (t \<noteq> [] \<and> hd t = CHR ''-'');
          u = (if t \<noteq> [] \<and> (hd t = CHR ''+'' \<or> hd t = CHR ''-'') then tl t else t);
          v = (if 2 \<le> length u \<and> hd u = CHR ''0'' \<and> (u ! 1 = CHR ''x'' \<or> u ! 1 = CHR ''X'')
               then drop 2 u else u);
          z = takeWhile (isRadixDigit 16) v
      in if z = [] then NaN
         else Fin (if neg then - real (radixValue 16 z) else real (radixValue 16 z)))"

section \<open>The colour resolver\<close>

type_synonym ColorTuple = "jsnum \<times> jsnum \<times> jsnum"
type_synonym Vec3 = "jsnum \<times> jsnum \<times> jsnum"

definition white :: ColorTuple where
  "white = (Fin 1, Fin 1, Fin 1)"

definition toColorTuple :: "jsval \<Rightarrow> ColorTuple \<Rightarrow> ColorTuple" where
  "toColorTuple v fallback =
     (case v of
        JArr xs \<Rightarrow>
          if 3 \<le> length xs then
            (let r = Number (elem xs 0); g = Number (elem xs 1); b = Number (elem xs 2)
             in (if isFinite r then r else fst fallback,
                 if isFinite g then g else fst (snd fallback),
                 if isFinite b then b else snd (snd fallback)))
          else fallback
      | _ \<Rightarrow> fallback)"

definition normalizeColorChannel :: "jsnum \<Rightarrow> jsnum" where
  "normalizeColorChannel v =
     (if \<not> isFinite v then Fin 0
      else if v < Fin 0 then Fin 0
      else if Fin 1 < v then Math_min (v / Fin 255) (Fin 1)
      else v)"

definition parseColorArray :: "jsval \<Rightarrow> ColorTuple option" where
  "parseColorArray v =
     (case v of
        JArr xs \<Rightarrow>
          if length xs < 3 then None
          else
            (let r = normalizeColorChannel (Number (elem xs 0));
                 g = normalizeColorChannel (Number (elem xs 1));
                 b = normalizeColorChannel (Number (elem xs 2))
             in if list_ex (\<lambda>channel. \<not> isFinite channel) [r, g, b] then None
                else Some (r, g, b))
      | _ \<Rightarrow> None)"

definition parseHexColor :: "string \<Rightarrow> ColorTuple option" where
  "parseHexColor v =
     (let hex = drop 1 v;
          isShort = (length hex = 3);
          isLong = (length hex = 6 \<or> length hex = 8)
      in if \<not> isShort \<and> \<not> isLong then None
         else
           (let expand = (\<lambda>component. if isShort then component @ component else component);
                components = map (\<lambda>index.
                    let start = index * (if isShort then 1 else 2);
                        part = expand (slice hex start (start + (if isShort then 1 else 2)));
                        parsed = parseInt16 part
                    in if isNaN parsed then None else Some (normalizeColorChannel parsed))
                  [0, 1, 2]
            in if list_ex (\<lambda>channel. channel = None) components then None
               else Some (the (components ! 0), the (components ! 1), the (components ! 2))))"

text \<open>
  \<open>parseRgbColor\<close>.  The pattern \<open>/^rgba?\(([^)]+)\)$/i\<close> matches a text made of
  \<open>rgb\<close> or \<open>rgba\<close> in any case, an opening parenthesis, at least one character none of
  which is a closing parenthesis, and a closing parenthesis at the very end; the group is
  what stands between the parentheses.
\<close>

definition rgb_match :: "string \<Rightarrow> string option" where
  "rgb_match v =
     (let r1 = (if toLowerCase (take 4 v) = ''rgba'' then drop 4 v
                else if toLowerCase (take 3 v) = ''rgb'' then drop 3 v
                else []);
          inner = butlast (drop 1 r1)
      in if 3 \<le> length r1 \<and> hd r1 = CHR ''('' \<and> last r1 = CHR '')''
            \<and> CHR '')'' \<notin> set inner
         then Some inner else None)"

definition toChannel :: "string \<Rightarrow> jsnum option" where
  "toChannel part =
     (if endsWith part ''%'' then
        (let percent = StringToNumber (butlast part)
         in if \<not> isFinite percent then None
            else Some (Math_min (Math_max (percent / Fin 100) (Fin 0)) (Fin 1)))
      else
        (let numeric = StringToNumber part
         in if \<not> isFinite numeric then None
            else Some (normalizeColorChannel numeric)))"

definition parseRgbColor :: "string \<Rightarrow> ColorTuple option" where
  "parseRgbColor v =
     (case rgb_match v of
        None \<Rightarrow> None
      | Some partsSource \<Rightarrow>
          (let parts = filter (\<lambda>part. part \<noteq> []) (map trim (split_comma partsSource))
           in if length parts < 3 then None
              else
                (let channels = map toChannel (take 3 parts)
                 in if list_ex (\<lambda>channel. channel = None) channels then None
                    else Some (the (channels ! 0), the (channels ! 1), the (channels ! 2)))))"

definition parseColorValue :: "jsval \<Rightarrow> ColorTuple option" where
  "parseColorValue v =
     (if v = JNull \<or> v = JUndefined then None
      else (case parseColorArray v of
              Some fromArray \<Rightarrow> Some fromArray
            | None \<Rightarrow>
                (case v of
                   JStr s \<Rightarrow>
                     (let trimmed = trim s
                      in if trimmed = [] then None
                         else if startsWith trimmed ''#'' then parseHexColor (toLowerCase trimmed)
                         else parseRgbColor trimmed)
                 | _ \<Rightarrow> None)))"

section \<open>The geometry triangulator\<close>

datatype error =
    ExpectedPolygonData
  | UnableToBuildTriangleMesh
  | ExpectedSideData
  | UnableToBuildLineGeometry
  | UnsupportedGeometry
  | NoGeometry
  | TypeError
  | RangeError

text \<open>The message each failure carries.\<close>

fun message :: "error \<Rightarrow> string" where
  "message ExpectedPolygonData = ''Expected polygon data in JSCAD geometry''"
| "message UnableToBuildTriangleMesh = ''Unable to build triangle mesh from JSCAD polygons''"
| "message ExpectedSideData = ''Expected side data in JSCAD 2D geometry''"
| "message UnableToBuildLineGeometry = ''Unable to build line geometry from JSCAD sides''"
| "message UnsupportedGeometry =
     ''JSCAD plan evaluation did not return a supported geometry (expected geom2 or geom3)''"
| "message NoGeometry = ''JSCAD plan execution returned no geometry''"
| "message TypeError = ''TypeError''"
| "message RangeError = ''RangeError''"

text \<open>
  \<open>CsgLike\<close>.  A polygon is given by its \<open>vertices\<close> array; an optional field that is
  missing is \<open>None\<close> (\<open>JUndefined\<close> for the colour).
\<close>

record CsgLike =
  polygons :: "jsval list list option"
  sides :: "jsval list option"
  color :: jsval
  transforms :: "jsnum list option"

definition arrayOf :: "jsval \<Rightarrow> jsval list option" where
  "arrayOf v = (case v of JArr xs \<Rightarrow> Some xs | _ \<Rightarrow> None)"

definition isArrayOf3 :: "jsval \<Rightarrow> bool" where
  "isArrayOf3 v = (case v of JArr xs \<Rightarrow> 3 \<le> length xs | _ \<Rightarrow> False)"

definition coords :: "jsval \<Rightarrow> Vec3" where
  "coords v =
     (let xs = the (arrayOf v)
      in (or_zero (Number (elem xs 0)), or_zero (Number (elem xs 1)),
          or_zero (Number (elem xs 2))))"

definition origin :: Vec3 where
  "origin = (Fin 0, Fin 0, Fin 0)"

definition extractVertexPosition :: "jsval \<Rightarrow> Vec3" where
  "extractVertexPosition vertex =
     (if \<not> truthy vertex then origin
      else if isArrayOf3 vertex then coords vertex
      else if truthy (getProp vertex ''pos'') \<and> isArrayOf3 (getProp vertex ''pos'')
        then coords (getProp vertex ''pos'')
      else if isArrayOf3 (getProp vertex ''position'') then coords (getProp vertex ''position'')
      else origin)"

text \<open>\<open>vertex?.color\<close> is \<open>undefined\<close> for \<open>null\<close> and \<open>undefined\<close> as well.\<close>

definition extractVertexColor :: "jsval \<Rightarrow> ColorTuple \<Rightarrow> ColorTuple" where
  "extractVertexColor vertex defaultColor =
     (if truthy (getProp vertex ''color'')
      then toColorTuple (getProp vertex ''color'') defaultColor
      else defaultColor)"

definition applyTransform :: "Vec3 \<Rightarrow> jsnum list option \<Rightarrow> Vec3" where
  "applyTransform vector matrix =
     (case matrix of
        None \<Rightarrow> vector
      | Some m \<Rightarrow>
          if length m \<noteq> 16 then vector
          else
            (let (x, y, z) = vector;
                 nx = m ! 0 * x + m ! 4 * y + m ! 8 * z + m ! 12;
                 ny = m ! 1 * x + m ! 5 * y + m ! 9 * z + m ! 13;
                 nz = m ! 2 * x + m ! 6 * y + m ! 10 * z + m ! 14;
                 w = m ! 3 * x + m ! 7 * y + m ! 11 * z + m ! 15
             in if truthy_num w \<and> w \<noteq> Fin 1 then (nx / w, ny / w, nz / w)
                else (nx, ny, nz)))"

fun subtract :: "Vec3 \<Rightarrow> Vec3 \<Rightarrow> Vec3" where
  "subtract (a0, a1, a2) (b0, b1, b2) = (a0 - b0, a1 - b1, a2 - b2)"

fun cross :: "Vec3 \<Rightarrow> Vec3 \<Rightarrow> Vec3" where
  "cross (a0, a1, a2) (b0, b1, b2) =
     (a1 * b2 - a2 * b1, a2 * b0 - a0 * b2, a0 * b1 - a1 * b0)"

fun normalize :: "Vec3 \<Rightarrow> Vec3" where
  "normalize (v0, v1, v2) =
     (let len = Math_hypot v0 v1 v2
      in if \<not> truthy_num len then (Fin 0, Fin 0, Fin 1)
         else (v0 / len, v1 / len, v2 / len))"

text \<open>Spreading a triple into a \<open>push\<close>.\<close>

fun spread :: "jsnum \<times> jsnum \<times> jsnum \<Rightarrow> jsnum list" where
  "spread (a, b, c) = [a, b, c]"

text \<open>The three arrays the conversion loops push onto.\<close>

record streams =
  s_positions :: "jsnum list"
  s_normals :: "jsnum list"
  s_colors :: "jsnum list"

definition no_streams :: streams where
  "no_streams = \<lparr>s_positions = [], s_normals = [], s_colors = []\<rparr>"

text \<open>The body of the inner loop of \<open>convertPolygonGeometry\<close>, for one \<open>i\<close>.\<close>

definition push_triangle :: "Vec3 list \<Rightarrow> ColorTuple list \<Rightarrow> nat \<Rightarrow> streams \<Rightarrow> streams" where
  "push_triangle transformedVertices vertexColors i acc =
     (let a = transformedVertices ! 0;
          b = transformedVertices ! i;
          c = transformedVertices ! (i + 1);
          ab = subtract b a;
          ac = subtract c a;
          normal = normalize (cross ab ac);
          colorA = vertexColors ! 0;
          colorB = vertexColors ! i;
          colorC = vertexColors ! (i + 1)
      in \<lparr>s_positions = s_positions acc @ spread a @ spread b @ spread c,
          s_normals = s_normals acc @ spread normal @ spread normal @ spread normal,
          s_colors = s_colors acc @ spread colorA @ spread colorB @ spread colorC\<rparr>)"

function fan_loop :: "Vec3 list \<Rightarrow> ColorTuple list \<Rightarrow> nat \<Rightarrow> streams \<Rightarrow> streams" where
  "fan_loop transformedVertices vertexColors i acc =
     (if i < length transformedVertices - 1
      then fan_loop transformedVertices vertexColors (i + 1)
             (push_triangle transformedVertices vertexColors i acc)
      else acc)"
  by pat_completeness auto
termination
  by (relation "measure (\<lambda>(tv, vc, i, acc). length tv - 1 - i)") auto

declare fan_loop.simps [simp del]

definition shapeColor :: "CsgLike \<Rightarrow> ColorTuple" where
  "shapeColor csg = (if truthy (color csg) then toColorTuple (color csg) white else white)"

definition polygon_step :: "CsgLike \<Rightarrow> ColorTuple \<Rightarrow> streams \<Rightarrow> jsval list \<Rightarrow> streams" where
  "polygon_step csg defaultColor acc vertices =
     (if length vertices < 3 then acc
      else
        (let transformedVertices =
               map (\<lambda>vertex. applyTransform (extractVertexPosition vertex) (transforms csg))
                 vertices;
             vertexColors = map (\<lambda>vertex. extractVertexColor vertex defaultColor) vertices
         in fan_loop transformedVertices vertexColors 1 acc))"

text \<open>
  \<open>new Float32Array(numbers)\<close> rounds each number to binary32.  The rounding is the
  parameter \<open>fround\<close> of the conversions below.
\<close>

definition convertPolygonGeometry ::
  "(jsnum \<Rightarrow> 32 word) \<Rightarrow> CsgLike \<Rightarrow> string \<Rightarrow> error + GeometryData" where
  "convertPolygonGeometry fround csg nm =
     (case polygons csg of
        None \<Rightarrow> Inl ExpectedPolygonData
      | Some ps \<Rightarrow>
          if ps = [] then Inl ExpectedPolygonData
          else
            (let defaultColor = shapeColor csg;
                 acc = foldl (polygon_step csg defaultColor) no_streams ps
             in if s_positions acc = [] then Inl UnableToBuildTriangleMesh
                else Inr \<lparr>name = nm,
                          positions = map fround (s_positions acc),
                          normals = Some (map fround (s_normals acc)),
                          colors = (if s_colors acc \<noteq> [] then Some (map fround (s_colors acc))
                                    else None),
                          mode = GLTF_MODE_TRIANGLES\<rparr>))"

text \<open>
  Index access \<open>v[i]\<close> on a value of any kind: a \<open>TypeError\<close> on \<open>null\<close> and
  \<open>undefined\<close>, the element of an array, the character of a string, the property of
  that name of an object.
\<close>

fun index_any :: "jsval \<Rightarrow> nat \<Rightarrow> error + jsval" where
  "index_any JUndefined _ = Inl TypeError"
| "index_any JNull _ = Inl TypeError"
| "index_any (JArr xs) i = Inr (elem xs i)"
| "index_any (JStr s) i = Inr (if i < length s then JStr [s ! i] else JUndefined)"
| "index_any (JObj kvs) i = Inr (getProp (JObj kvs) (digits_of i))"
| "index_any _ _ = Inr JUndefined"

definition rawPoint :: "jsval \<Rightarrow> error + Vec3" where
  "rawPoint raw =
     (case index_any raw 0 of
        Inl e \<Rightarrow> Inl e
      | Inr x \<Rightarrow>
          (case index_any raw 1 of
             Inl e \<Rightarrow> Inl e
           | Inr y \<Rightarrow>
               (case index_any raw 2 of
                  Inl e \<Rightarrow> Inl e
                | Inr z \<Rightarrow> Inr (or_zero (Number x), or_zero (Number y), or_zero (Number z)))))"

definition side_step :: "CsgLike \<Rightarrow> ColorTuple \<Rightarrow> streams \<Rightarrow> jsval \<Rightarrow> error + streams" where
  "side_step csg defaultColor acc side =
     (case arrayOf side of
        None \<Rightarrow> Inr acc
      | Some pts \<Rightarrow>
          if length pts < 2 then Inr acc
          else
            (case rawPoint (elem pts 0) of
               Inl e \<Rightarrow> Inl e
             | Inr startRaw \<Rightarrow>
                 (case rawPoint (elem pts (length pts - 1)) of
                    Inl e \<Rightarrow> Inl e
                  | Inr endRaw \<Rightarrow>
                      (let start = applyTransform startRaw (transforms csg);
                           end = applyTransform endRaw (transforms csg)
                       in Inr (acc\<lparr>s_positions := s_positions acc @ spread start @ spread end,
                                   s_colors := s_colors acc @ spread defaultColor
                                                 @ spread defaultColor\<rparr>)))))"

fun side_loop :: "CsgLike \<Rightarrow> ColorTuple \<Rightarrow> streams \<Rightarrow> jsval list \<Rightarrow> error + streams" where
  "side_loop csg defaultColor acc [] = Inr acc"
| "side_loop csg defaultColor acc (side # rest) =
     (case side_step csg defaultColor acc side of
        Inl e \<Rightarrow> Inl e
      | Inr acc' \<Rightarrow> side_loop csg defaultColor acc' rest)"

definition convertSideGeometry ::
  "(jsnum \<Rightarrow> 32 word) \<Rightarrow> CsgLike \<Rightarrow> string \<Rightarrow> error + GeometryData" where
  "convertSideGeometry fround csg nm =
     (case sides csg of
        None \<Rightarrow> Inl ExpectedSideData
      | Some ss \<Rightarrow>
          if ss = [] then Inl ExpectedSideData
          else
            (case side_loop csg (shapeColor csg) no_streams ss of
               Inl e \<Rightarrow> Inl e
             | Inr acc \<Rightarrow>
                 if s_positions acc = [] then Inl UnableToBuildLineGeometry
                 else Inr \<lparr>name = nm,
                           positions = map fround (s_positions acc),
                           normals = None,
                           colors = (if s_colors acc \<noteq> [] then Some (map fround (s_colors acc))
                                     else None),
                           mode = GLTF_MODE_LINES\<rparr>))"

text \<open>
  The input of \<open>collectGeometries\<close>: a geometry value or an array, whose elements may be
  arrays again.  A value that is no geometry at all (a number, \<open>null\<close>) has neither field
  and is a \<open>Geom\<close> without them.
\<close>

datatype csg_input = Geom CsgLike | Group "csg_input list"

function (sequential) collectGeometries ::
    "(jsnum \<Rightarrow> 32 word) \<Rightarrow> csg_input \<Rightarrow> string \<Rightarrow> error + GeometryData list"
  and collectChildren ::
    "(jsnum \<Rightarrow> 32 word) \<Rightarrow> csg_input list \<Rightarrow> string \<Rightarrow> nat \<Rightarrow> error + GeometryData list"
  where
  "collectGeometries fround (Group children) nm = collectChildren fround children nm 0"
| "collectGeometries fround (Geom csg) nm =
     (if polygons csg \<noteq> None then
        (case convertPolygonGeometry fround csg nm of
           Inl e \<Rightarrow> Inl e | Inr g \<Rightarrow> Inr [g])
      else if sides csg \<noteq> None then
        (case convertSideGeometry fround csg nm of
           Inl e \<Rightarrow> Inl e | Inr g \<Rightarrow> Inr [g])
      else Inl UnsupportedGeometry)"
| "collectChildren fround [] nm index = Inr []"
| "collectChildren fround (child # rest) nm index =
     (case collectGeometries fround child (nm @ ''_'' @ digits_of index) of
        Inl e \<Rightarrow> Inl e
      | Inr gs \<Rightarrow>
          (case collectChildren fround rest nm (index + 1) of
             Inl e \<Rightarrow> Inl e
           | Inr gs' \<Rightarrow> Inr (gs @ gs')))"
  by pat_completeness auto
termination
  by (relation "measure (\<lambda>x. case x of Inl (f, c, nm) \<Rightarrow> size c
                                   | Inr (f, cs, nm, i) \<Rightarrow> size_list size cs)")
    simp_all

section \<open>Alignment of the packed buffer\<close>

lemma align4_dvd: "4 dvd align n 4"
  unfolding align_def Let_def by presburger

lemma align4_ge: "n \<le> align n 4"
  unfolding align_def Let_def by presburger

lemma length_u32le: "length (u32le n) = 4"
  by (simp add: u32le_def)

lemma length_f32_bytes: "length (f32_bytes data) = 4 * length data"
  unfolding f32_bytes_def by (induction data) (simp_all add: length_u32le)

text \<open>
  What the packing loop maintains: every view recorded so far starts at a multiple of four
  and ends inside the bytes pushed so far, and the running length is the number of bytes
  pushed.
\<close>

definition pack_inv :: "Buffer list \<Rightarrow> BufferView list \<Rightarrow> nat \<Rightarrow> bool" where
  "pack_inv chunks views len \<longleftrightarrow>
     (\<forall>bv \<in> set views. 4 dvd byteOffset bv \<and> byteOffset bv + byteLength bv \<le> len)
     \<and> length (concat chunks) = len"

lemma addBufferView_inv:
  assumes "pack_inv chunks views len"
    and "addBufferView chunks views data len tgt = (chunks', views', idx, len')"
  shows "pack_inv chunks' views' len' \<and> len \<le> len'"
proof -
  have a: "len \<le> align len 4" by (rule align4_ge)
  from assms show ?thesis
    unfolding addBufferView_def Let_def pack_inv_def
    using a align4_dvd[of len]
    by (fastforce simp: length_f32_bytes byteLength_f32_def split: if_splits)
qed

lemma packGeometry_inv:
  assumes "pack_inv (bufferChunks st) (bufferViews st) (bufferLength st)"
  shows "pack_inv (bufferChunks (packGeometry st gi)) (bufferViews (packGeometry st gi))
           (bufferLength (packGeometry st gi))"
proof -
  obtain c1 v1 i1 l1 where p1:
    "addBufferView (bufferChunks st) (bufferViews st) (positions (fst gi)) (bufferLength st)
       (Some 34962) = (c1, v1, i1, l1)"
    by (metis prod_cases4)
  from addBufferView_inv[OF assms p1] have i1: "pack_inv c1 v1 l1" by simp
  show ?thesis
  proof (cases "normals (fst gi)")
    case None
    note n = None
    show ?thesis
    proof (cases "colors (fst gi)")
      case None
      with n p1 i1 show ?thesis
        by (simp add: packGeometry_def Let_def split: prod.splits)
    next
      case (Some cs)
      obtain c3 v3 i3 l3 where p3: "addBufferView c1 v1 cs l1 (Some 34962) = (c3, v3, i3, l3)"
        by (metis prod_cases4)
      from addBufferView_inv[OF i1 p3] have "pack_inv c3 v3 l3" by simp
      with n Some p1 p3 show ?thesis
        by (simp add: packGeometry_def Let_def split: prod.splits)
    qed
  next
    case (Some ns)
    note n = Some
    obtain c2 v2 i2 l2 where p2: "addBufferView c1 v1 ns l1 (Some 34962) = (c2, v2, i2, l2)"
      by (metis prod_cases4)
    from addBufferView_inv[OF i1 p2] have i2: "pack_inv c2 v2 l2" by simp
    show ?thesis
    proof (cases "colors (fst gi)")
      case None
      with n p1 p2 i2 show ?thesis
        by (simp add: packGeometry_def Let_def split: prod.splits)
    next
      case (Some cs)
      obtain c3 v3 i3 l3 where p3: "addBufferView c2 v2 cs l2 (Some 34962) = (c3, v3, i3, l3)"
        by (metis prod_cases4)
      from addBufferView_inv[OF i2 p3] have "pack_inv c3 v3 l3" by simp
      with n Some p1 p2 p3 show ?thesis
        by (simp add: packGeometry_def Let_def split: prod.splits)
    qed
  qed
qed

lemma foldl_packGeometry_inv:
  "pack_inv (bufferChunks st) (bufferViews st) (bufferLength st) \<Longrightarrow>
   pack_inv (bufferChunks (foldl packGeometry st gis)) (bufferViews (foldl packGeometry st gis))
           (bufferLength (foldl packGeometry st gis))"
  by (induction gis arbitrary: st) (simp_all add: packGeometry_inv)

subsection \<open>The alignment rule\<close>

text \<open>
  The rule in the words of the specification.  The segments of a list of mesh units are
  their position, normal and colour arrays, in this order, unit after unit.  Going through
  the segments with a running byte length, each segment is preceded by the zero bytes that
  bring the running length to the next multiple of four, and its view records that padded
  length as its offset.
\<close>

definition next_multiple_of_4 :: "nat \<Rightarrow> nat" where
  "next_multiple_of_4 n = 4 * ((n + 3) div 4)"

definition unit_segments :: "GeometryData \<Rightarrow> Float32Array list" where
  "unit_segments g =
     [positions g]
     @ (case normals g of None \<Rightarrow> [] | Some ns \<Rightarrow> [ns])
     @ (case colors g of None \<Rightarrow> [] | Some cs \<Rightarrow> [cs])"

definition segments :: "GeometryData list \<Rightarrow> Float32Array list" where
  "segments geometries = concat (map unit_segments geometries)"

fun packed_length :: "nat \<Rightarrow> Float32Array list \<Rightarrow> nat" where
  "packed_length running [] = running"
| "packed_length running (seg # segs) =
     packed_length (next_multiple_of_4 running + 4 * length seg) segs"

fun packed_views :: "nat \<Rightarrow> Float32Array list \<Rightarrow> BufferView list" where
  "packed_views running [] = []"
| "packed_views running (seg # segs) =
     \<lparr>buffer = 0, byteOffset = next_multiple_of_4 running, byteLength = 4 * length seg,
      target = Some 34962\<rparr>
     # packed_views (next_multiple_of_4 running + 4 * length seg) segs"

fun packed_bytes :: "nat \<Rightarrow> Float32Array list \<Rightarrow> byte list" where
  "packed_bytes running [] = []"
| "packed_bytes running (seg # segs) =
     replicate (next_multiple_of_4 running - running) 0 @ f32_bytes seg
     @ packed_bytes (next_multiple_of_4 running + 4 * length seg) segs"

lemma align4_next: "align n 4 = next_multiple_of_4 n"
  unfolding align_def next_multiple_of_4_def Let_def by presburger

lemma next_multiple_of_4_least:
  "4 dvd next_multiple_of_4 n" "n \<le> next_multiple_of_4 n" "next_multiple_of_4 n < n + 4"
  unfolding next_multiple_of_4_def by presburger+

lemma next_multiple_of_4_gap:
  "next_multiple_of_4 n - n = (if n mod 4 = 0 then 0 else 4 - n mod 4)"
  unfolding next_multiple_of_4_def by presburger

lemma next_multiple_of_4_less: "(n < next_multiple_of_4 n) = (0 < n mod 4)"
  unfolding next_multiple_of_4_def by presburger

lemma addBufferView_rule:
  "addBufferView chunks views data len tgt =
     (chunks @ (if len mod 4 = 0 then [] else [replicate (4 - len mod 4) 0]) @ [f32_bytes data],
      views @ [\<lparr>buffer = 0, byteOffset = next_multiple_of_4 len, byteLength = 4 * length data,
                target = tgt\<rparr>],
      length views,
      next_multiple_of_4 len + 4 * length data)"
  by (simp add: addBufferView_def Let_def align4_next next_multiple_of_4_gap
      next_multiple_of_4_less byteLength_f32_def)

lemma padBufferEnd_rule:
  "bufferChunks (padBufferEnd st) =
     bufferChunks st
     @ (if bufferLength st mod 4 = 0 then [] else [replicate (4 - bufferLength st mod 4) 0])
   \<and> bufferLength (padBufferEnd st) = next_multiple_of_4 (bufferLength st)
   \<and> bufferViews (padBufferEnd st) = bufferViews st"
proof -
  have "bufferLength st < next_multiple_of_4 (bufferLength st) \<longleftrightarrow> bufferLength st mod 4 \<noteq> 0"
    unfolding next_multiple_of_4_def by presburger
  moreover have "bufferLength st mod 4 = 0 \<Longrightarrow> next_multiple_of_4 (bufferLength st) = bufferLength st"
    unfolding next_multiple_of_4_def by presburger
  ultimately show ?thesis
    by (simp add: padBufferEnd_def Let_def align4_next next_multiple_of_4_gap)
qed

lemma packed_length_append:
  "packed_length r (xs @ ys) = packed_length (packed_length r xs) ys"
  by (induction xs arbitrary: r) simp_all

lemma packed_views_append:
  "packed_views r (xs @ ys) = packed_views r xs @ packed_views (packed_length r xs) ys"
  by (induction xs arbitrary: r) simp_all

lemma packed_bytes_append:
  "packed_bytes r (xs @ ys) = packed_bytes r xs @ packed_bytes (packed_length r xs) ys"
  by (induction xs arbitrary: r) simp_all

lemma length_packed_bytes: "r + length (packed_bytes r segs) = packed_length r segs"
proof (induction segs arbitrary: r)
  case Nil
  show ?case by simp
next
  case (Cons s ss)
  from Cons.IH[of "next_multiple_of_4 r + 4 * length s"] next_multiple_of_4_least(2)[of r]
  show ?case by (simp add: length_f32_bytes)
qed

lemma length_packed_views: "length (packed_views r segs) = length segs"
  by (induction segs arbitrary: r) simp_all

lemma packGeometry_packed:
  "bufferViews (packGeometry st gi) =
     bufferViews st @ packed_views (bufferLength st) (unit_segments (fst gi))
   \<and> concat (bufferChunks (packGeometry st gi)) =
     concat (bufferChunks st) @ packed_bytes (bufferLength st) (unit_segments (fst gi))
   \<and> bufferLength (packGeometry st gi) =
     packed_length (bufferLength st) (unit_segments (fst gi))"
  by (simp add: packGeometry_def addBufferView_rule unit_segments_def Let_def
      next_multiple_of_4_gap split: option.splits prod.splits)

lemma foldl_packGeometry_packed:
  "bufferViews (foldl packGeometry st gis) =
     bufferViews st @ packed_views (bufferLength st) (segments (map fst gis))
   \<and> concat (bufferChunks (foldl packGeometry st gis)) =
     concat (bufferChunks st) @ packed_bytes (bufferLength st) (segments (map fst gis))
   \<and> bufferLength (foldl packGeometry st gis) =
     packed_length (bufferLength st) (segments (map fst gis))"
proof (induction gis arbitrary: st)
  case Nil
  show ?case by (simp add: segments_def)
next
  case (Cons gi gis)
  from Cons.IH[of "packGeometry st gi"] packGeometry_packed[of st gi]
  show ?case
    by (simp add: segments_def packed_views_append packed_bytes_append packed_length_append)
qed

lemma map_fst_enumerate_from0: "map fst (enumerate_from0 xs) = xs"
  by (simp add: enumerate_from0_def)

lemma packed_segment_at:
  "i < length segs \<Longrightarrow>
     r \<le> byteOffset (packed_views r segs ! i)
     \<and> take (byteLength (packed_views r segs ! i))
          (drop (byteOffset (packed_views r segs ! i) - r) (packed_bytes r segs @ rest))
        = f32_bytes (segs ! i)"
proof (induction segs arbitrary: r i)
  case Nil
  then show ?case by simp
next
  case (Cons s ss)
  have ge: "r \<le> next_multiple_of_4 r" by (rule next_multiple_of_4_least)
  show ?case
  proof (cases i)
    case 0
    with ge show ?thesis by (simp add: length_f32_bytes)
  next
    case (Suc j)
    let ?r' = "next_multiple_of_4 r + 4 * length s"
    let ?bv = "packed_views ?r' ss ! j"
    from Cons.prems Suc have j: "j < length ss" by simp
    from Cons.IH[OF j, of ?r']
    have o: "?r' \<le> byteOffset ?bv"
      and t: "take (byteLength ?bv) (drop (byteOffset ?bv - ?r') (packed_bytes ?r' ss @ rest))
          = f32_bytes (ss ! j)"
      by blast+
    have d: "byteOffset ?bv - r
        = (next_multiple_of_4 r - r) + (4 * length s + (byteOffset ?bv - ?r'))"
      using o ge by simp
    have "drop (byteOffset ?bv - r) (packed_bytes r (s # ss) @ rest)
        = drop (byteOffset ?bv - ?r') (packed_bytes ?r' ss @ rest)"
      unfolding d by (simp add: length_f32_bytes)
    with t have goal: "take (byteLength ?bv)
        (drop (byteOffset ?bv - r) (packed_bytes r (s # ss) @ rest)) = f32_bytes (ss ! j)"
      by (simp only:)
    have v: "packed_views r (s # ss) ! i = ?bv" using Suc by simp
    have e: "(s # ss) ! i = ss ! j" using Suc by simp
    show ?thesis
      unfolding v e
    proof (intro conjI)
      from o ge show "r \<le> byteOffset ?bv" by linarith
      show "take (byteLength ?bv)
        (drop (byteOffset ?bv - r) (packed_bytes r (s # ss) @ rest)) = f32_bytes (ss ! j)"
        by (rule goal)
    qed
  qed
qed

text \<open>
  Claim C2.  For every non-empty list of mesh units given to the packer, every bufferView
  of the output JSON has a byte offset that is a multiple of 4, and the byte length
  declared by the single buffer descriptor is a multiple of 4 and is the length of the
  packed byte buffer.  The views and the buffer are the ones of the alignment rule applied
  to the segments of the units from the running length 0, the buffer ending with the zero
  bytes that bring its length to a multiple of 4, and every view addresses the bytes of its
  own segment.  The rule holds from any running length, aligned or not: \<open>addBufferView\<close>
  pushes the zero bytes that bring the running length to the next multiple of 4 (none when
  it is one already), then the bytes of the segment, records that padded length as the
  offset of the new view, and returns the index of the view and the offset plus the byte
  length of the segment; so does the packing loop from any state, and the last step of the
  packer pads with zero bytes in the same way.
\<close>

theorem C2_alignment:
  assumes "geometries \<noteq> []" and "buildGltfCore geometries = (json, binary)"
  shows "(\<forall>bv \<in> set (json_bufferViews json). byteOffset bv mod 4 = 0)
       \<and> buffers_byteLength json mod 4 = 0
       \<and> buffers_byteLength json = length binary
       \<and> json_bufferViews json = packed_views 0 (segments geometries)
       \<and> binary = packed_bytes 0 (segments geometries)
            @ replicate (next_multiple_of_4 (packed_length 0 (segments geometries))
                          - packed_length 0 (segments geometries)) 0
       \<and> (\<forall>i < length (segments geometries).
            take (byteLength (json_bufferViews json ! i))
              (drop (byteOffset (json_bufferViews json ! i)) binary)
            = f32_bytes (segments geometries ! i))
       \<and> addBufferView chunks views data len tgt =
            (chunks @ (if len mod 4 = 0 then [] else [replicate (4 - len mod 4) 0])
               @ [f32_bytes data],
             views @ [\<lparr>buffer = 0, byteOffset = next_multiple_of_4 len,
                       byteLength = 4 * length data, target = tgt\<rparr>],
             length views,
             next_multiple_of_4 len + 4 * length data)
       \<and> 4 dvd next_multiple_of_4 len \<and> len \<le> next_multiple_of_4 len
       \<and> next_multiple_of_4 len < len + 4
       \<and> bufferViews (foldl packGeometry st gis) =
            bufferViews st @ packed_views (bufferLength st) (segments (map fst gis))
       \<and> concat (bufferChunks (foldl packGeometry st gis)) =
            concat (bufferChunks st) @ packed_bytes (bufferLength st) (segments (map fst gis))
       \<and> bufferLength (foldl packGeometry st gis) =
            packed_length (bufferLength st) (segments (map fst gis))
       \<and> bufferChunks (padBufferEnd st) =
            bufferChunks st
            @ (if bufferLength st mod 4 = 0 then []
               else [replicate (4 - bufferLength st mod 4) 0])
       \<and> bufferLength (padBufferEnd st) = next_multiple_of_4 (bufferLength st)
       \<and> bufferViews (padBufferEnd st) = bufferViews st"
proof -
  let ?init = "\<lparr>bufferChunks = [], bufferViews = [], accessors = [], meshes = [],
                 nodes = [], bufferLength = 0\<rparr>"
  let ?fin = "foldl packGeometry ?init (enumerate_from0 geometries)"
  let ?segs = "segments geometries"
  let ?L = "packed_length 0 ?segs"
  have "pack_inv (bufferChunks ?init) (bufferViews ?init) (bufferLength ?init)"
    by (simp add: pack_inv_def)
  then have inv: "pack_inv (bufferChunks ?fin) (bufferViews ?fin) (bufferLength ?fin)"
    using foldl_packGeometry_inv[of ?init "enumerate_from0 geometries"] by blast
  have d: "4 dvd align (bufferLength ?fin) 4" by (rule align4_dvd)
  have g: "bufferLength ?fin \<le> align (bufferLength ?fin) 4" by (rule align4_ge)
  from assms(2) inv d g
  have first: "(\<forall>bv \<in> set (json_bufferViews json). byteOffset bv mod 4 = 0)
       \<and> buffers_byteLength json mod 4 = 0
       \<and> buffers_byteLength json = length binary"
    unfolding buildGltfCore_def padBufferEnd_def Let_def pack_inv_def Buffer_concat_def
    by (auto simp: mod_eq_0_iff_dvd split: if_splits)
  from foldl_packGeometry_packed[of ?init "enumerate_from0 geometries"]
  have fv: "bufferViews ?fin = packed_views 0 ?segs"
    and fc: "concat (bufferChunks ?fin) = packed_bytes 0 ?segs"
    and fl: "bufferLength ?fin = ?L"
    by (simp_all add: map_fst_enumerate_from0)
  from padBufferEnd_rule[of ?fin] fc fl
  have pc: "concat (bufferChunks (padBufferEnd ?fin))
      = packed_bytes 0 ?segs @ replicate (next_multiple_of_4 ?L - ?L) 0"
    by (simp add: next_multiple_of_4_gap)
  from padBufferEnd_rule[of ?fin] fl
  have pl: "bufferLength (padBufferEnd ?fin) = next_multiple_of_4 ?L" by simp
  from padBufferEnd_rule[of ?fin] fv
  have pv: "bufferViews (padBufferEnd ?fin) = packed_views 0 ?segs" by simp
  have len: "length (packed_bytes 0 ?segs) = ?L"
    using length_packed_bytes[of 0 ?segs] by simp
  have ge: "?L \<le> next_multiple_of_4 ?L" by (rule next_multiple_of_4_least)
  from assms(2) have jv: "json_bufferViews json = bufferViews (padBufferEnd ?fin)"
    and bin: "binary = Buffer_concat (bufferChunks (padBufferEnd ?fin))
                         (bufferLength (padBufferEnd ?fin))"
    by (auto simp: buildGltfCore_def Let_def)
  from jv pv have views: "json_bufferViews json = packed_views 0 ?segs" by simp
  from bin pc pl len ge
  have bytes: "binary = packed_bytes 0 ?segs @ replicate (next_multiple_of_4 ?L - ?L) 0"
    by (simp add: Buffer_concat_def)
  have content: "\<forall>i < length ?segs.
            take (byteLength (json_bufferViews json ! i))
              (drop (byteOffset (json_bufferViews json ! i)) binary)
            = f32_bytes (?segs ! i)"
  proof (intro allI impI)
    fix i
    assume "i < length ?segs"
    from packed_segment_at[OF this, of 0 "replicate (next_multiple_of_4 ?L - ?L) 0"]
    show "take (byteLength (json_bufferViews json ! i))
              (drop (byteOffset (json_bufferViews json ! i)) binary)
            = f32_bytes (?segs ! i)"
      unfolding views bytes by simp
  qed
  note rule = addBufferView_rule[of chunks views data len tgt]
  note least = next_multiple_of_4_least[of len]
  note loop = foldl_packGeometry_packed[of st gis]
  note final = padBufferEnd_rule[of st]
  from first views bytes content rule least loop final show ?thesis
    by blast
qed

text \<open>
  Two units as the triangulator emits them, written in binary32: the triangle
  \<open>(0,0,0)\<close>, \<open>(1,0,0)\<close>, \<open>(0,1,0)\<close> with its normal \<open>(0,0,1)\<close>, white, and the line from
  \<open>(1,0,0)\<close> to \<open>(3,5,0)\<close>, white.  And a state of the packer whose running length, 5, is
  no multiple of four.
\<close>

definition triangle_unit :: GeometryData where
  "triangle_unit =
     \<lparr>name = ''m_0'',
      positions = [0, 0, 0,  0x3F800000, 0, 0,  0, 0x3F800000, 0],
      normals = Some [0, 0, 0x3F800000,  0, 0, 0x3F800000,  0, 0, 0x3F800000],
      colors = Some [0x3F800000, 0x3F800000, 0x3F800000,  0x3F800000, 0x3F800000, 0x3F800000,
                     0x3F800000, 0x3F800000, 0x3F800000],
      mode = 4\<rparr>"

definition line_unit :: GeometryData where
  "line_unit =
     \<lparr>name = ''m_1'',
      positions = [0x3F800000, 0, 0,  0x40400000, 0x40A00000, 0],
      normals = None,
      colors = Some [0x3F800000, 0x3F800000, 0x3F800000,  0x3F800000, 0x3F800000, 0x3F800000],
      mode = 1\<rparr>"

definition unaligned_state :: pack_state where
  "unaligned_state =
     \<lparr>bufferChunks = [[1, 2, 3, 4, 5]], bufferViews = [], accessors = [], meshes = [],
      nodes = [], bufferLength = 5\<rparr>"

theorem C2_alignment_witness:
  "[triangle_unit, line_unit] \<noteq> []
   \<and> json_bufferViews (fst (buildGltfCore [triangle_unit, line_unit])) =
       [\<lparr>buffer = 0, byteOffset = 0, byteLength = 36, target = Some 34962\<rparr>,
        \<lparr>buffer = 0, byteOffset = 36, byteLength = 36, target = Some 34962\<rparr>,
        \<lparr>buffer = 0, byteOffset = 72, byteLength = 36, target = Some 34962\<rparr>,
        \<lparr>buffer = 0, byteOffset = 108, byteLength = 24, target = Some 34962\<rparr>,
        \<lparr>buffer = 0, byteOffset = 132, byteLength = 24, target = Some 34962\<rparr>]
   \<and> buffers_byteLength (fst (buildGltfCore [triangle_unit, line_unit])) = 156
   \<and> length (snd (buildGltfCore [triangle_unit, line_unit])) = 156
   \<and> snd (buildGltfCore [triangle_unit, line_unit]) =
       f32_bytes (positions triangle_unit) @ f32_bytes (the (normals triangle_unit))
       @ f32_bytes (the (colors triangle_unit))
       @ f32_bytes (positions line_unit) @ f32_bytes (the (colors line_unit))
   \<and> take 24 (drop 108 (snd (buildGltfCore [triangle_unit, line_unit])))
       = f32_bytes (positions line_unit)
   \<and> addBufferView [[1, 2, 3, 4, 5]] [] [0x3F800000] 5 None =
       ([[1, 2, 3, 4, 5], [0, 0, 0], f32_bytes [0x3F800000]],
        [\<lparr>buffer = 0, byteOffset = 8, byteLength = 4, target = None\<rparr>], 0, 12)
   \<and> bufferViews (foldl packGeometry unaligned_state [(line_unit, 0)]) =
       [\<lparr>buffer = 0, byteOffset = 8, byteLength = 24, target = Some 34962\<rparr>,
        \<lparr>buffer = 0, byteOffset = 32, byteLength = 24, target = Some 34962\<rparr>]
   \<and> concat (bufferChunks (foldl packGeometry unaligned_state [(line_unit, 0)])) =
       [1, 2, 3, 4, 5] @ [0, 0, 0] @ f32_bytes (positions line_unit)
       @ f32_bytes (the (colors line_unit))
   \<and> bufferLength (foldl packGeometry unaligned_state [(line_unit, 0)]) = 56
   \<and> bufferChunks (padBufferEnd unaligned_state) = [[1, 2, 3, 4, 5], [0, 0, 0]]
   \<and> bufferLength (padBufferEnd unaligned_state) = 8"
proof -
  have ne: "[triangle_unit, line_unit] \<noteq> []" by simp
  have eq: "buildGltfCore [triangle_unit, line_unit] =
      (fst (buildGltfCore [triangle_unit, line_unit]),
       snd (buildGltfCore [triangle_unit, line_unit]))"
    by simp
  have segs: "segments [triangle_unit, line_unit] =
      [positions triangle_unit, the (normals triangle_unit), the (colors triangle_unit),
       positions line_unit, the (colors line_unit)]"
    "segments (map fst [(line_unit, 0::nat)]) = [positions line_unit, the (colors line_unit)]"
    by (simp_all add: segments_def unit_segments_def triangle_unit_def line_unit_def)
  have lens: "length (positions triangle_unit) = 9" "length (the (normals triangle_unit)) = 9"
    "length (the (colors triangle_unit)) = 9" "length (positions line_unit) = 6"
    "length (the (colors line_unit)) = 6"
    by (simp_all add: triangle_unit_def line_unit_def)
  have n4: "next_multiple_of_4 0 = 0" "next_multiple_of_4 36 = 36" "next_multiple_of_4 72 = 72"
    "next_multiple_of_4 108 = 108" "next_multiple_of_4 132 = 132"
    "next_multiple_of_4 156 = 156" "next_multiple_of_4 5 = 8" "next_multiple_of_4 32 = 32"
    "next_multiple_of_4 56 = 56"
    by (simp_all add: next_multiple_of_4_def)
  have r3: "replicate 3 (0::byte) = [0, 0, 0]" by (simp add: numeral_3_eq_3)
  have st: "bufferChunks unaligned_state = [[1, 2, 3, 4, 5]]" "bufferViews unaligned_state = []"
    "bufferLength unaligned_state = 5"
    by (simp_all add: unaligned_state_def)
  note inst = C2_alignment[OF ne eq, where chunks = "[[1, 2, 3, 4, 5]]" and views = "[]"
      and data = "[0x3F800000]" and len = 5 and tgt = None and st = unaligned_state
      and gis = "[(line_unit, 0)]"]
  from inst have views: "json_bufferViews (fst (buildGltfCore [triangle_unit, line_unit])) =
       packed_views 0 (segments [triangle_unit, line_unit])"
    by blast
  from inst have bytes: "snd (buildGltfCore [triangle_unit, line_unit]) =
       packed_bytes 0 (segments [triangle_unit, line_unit])
            @ replicate (next_multiple_of_4 (packed_length 0 (segments [triangle_unit, line_unit]))
                          - packed_length 0 (segments [triangle_unit, line_unit])) 0"
    by blast
  from inst have blen: "buffers_byteLength (fst (buildGltfCore [triangle_unit, line_unit]))
      = length (snd (buildGltfCore [triangle_unit, line_unit]))"
    by blast
  from inst have content: "\<forall>i < length (segments [triangle_unit, line_unit]).
            take (byteLength (json_bufferViews (fst (buildGltfCore [triangle_unit, line_unit])) ! i))
              (drop (byteOffset (json_bufferViews (fst (buildGltfCore [triangle_unit, line_unit])) ! i))
                 (snd (buildGltfCore [triangle_unit, line_unit])))
            = f32_bytes (segments [triangle_unit, line_unit] ! i)"
    by blast
  from inst have add: "addBufferView [[1, 2, 3, 4, 5]] [] [0x3F800000] 5 None =
            ([[1, 2, 3, 4, 5]] @ (if (5::nat) mod 4 = 0 then [] else [replicate (4 - 5 mod 4) 0])
               @ [f32_bytes [0x3F800000]],
             [] @ [\<lparr>buffer = 0, byteOffset = next_multiple_of_4 5,
                       byteLength = 4 * length [0x3F800000 :: 32 word], target = None\<rparr>],
             length ([] :: BufferView list),
             next_multiple_of_4 5 + 4 * length [0x3F800000 :: 32 word])"
    by blast
  from inst have loop: "bufferViews (foldl packGeometry unaligned_state [(line_unit, 0)]) =
            bufferViews unaligned_state
            @ packed_views (bufferLength unaligned_state) (segments (map fst [(line_unit, 0::nat)]))"
    "concat (bufferChunks (foldl packGeometry unaligned_state [(line_unit, 0)])) =
            concat (bufferChunks unaligned_state)
            @ packed_bytes (bufferLength unaligned_state) (segments (map fst [(line_unit, 0::nat)]))"
    "bufferLength (foldl packGeometry unaligned_state [(line_unit, 0)]) =
            packed_length (bufferLength unaligned_state) (segments (map fst [(line_unit, 0::nat)]))"
    by blast+
  from inst have final: "bufferChunks (padBufferEnd unaligned_state) =
            bufferChunks unaligned_state
            @ (if bufferLength unaligned_state mod 4 = 0 then []
               else [replicate (4 - bufferLength unaligned_state mod 4) 0])"
    "bufferLength (padBufferEnd unaligned_state) = next_multiple_of_4 (bufferLength unaligned_state)"
    by blast+
  have v: "json_bufferViews (fst (buildGltfCore [triangle_unit, line_unit])) =
       [\<lparr>buffer = 0, byteOffset = 0, byteLength = 36, target = Some 34962\<rparr>,
        \<lparr>buffer = 0, byteOffset = 36, byteLength = 36, target = Some 34962\<rparr>,
        \<lparr>buffer = 0, byteOffset = 72, byteLength = 36, target = Some 34962\<rparr>,
        \<lparr>buffer = 0, byteOffset = 108, byteLength = 24, target = Some 34962\<rparr>,
        \<lparr>buffer = 0, byteOffset = 132, byteLength = 24, target = Some 34962\<rparr>]"
    unfolding views segs by (simp add: lens n4)
  have b: "snd (buildGltfCore [triangle_unit, line_unit]) =
       f32_bytes (positions triangle_unit) @ f32_bytes (the (normals triangle_unit))
       @ f32_bytes (the (colors triangle_unit))
       @ f32_bytes (positions line_unit) @ f32_bytes (the (colors line_unit))"
    unfolding bytes segs by (simp add: lens n4)
  have l: "length (snd (buildGltfCore [triangle_unit, line_unit])) = 156"
    unfolding b by (simp add: length_f32_bytes lens)
  from content[rule_format, of 3]
  have c: "take 24 (drop 108 (snd (buildGltfCore [triangle_unit, line_unit])))
       = f32_bytes (positions line_unit)"
    unfolding segs v by simp
  have a: "addBufferView [[1, 2, 3, 4, 5]] [] [0x3F800000] 5 None =
       ([[1, 2, 3, 4, 5], [0, 0, 0], f32_bytes [0x3F800000]],
        [\<lparr>buffer = 0, byteOffset = 8, byteLength = 4, target = None\<rparr>], 0, 12)"
    unfolding add by (simp add: n4 r3)
  have lv: "bufferViews (foldl packGeometry unaligned_state [(line_unit, 0)]) =
       [\<lparr>buffer = 0, byteOffset = 8, byteLength = 24, target = Some 34962\<rparr>,
        \<lparr>buffer = 0, byteOffset = 32, byteLength = 24, target = Some 34962\<rparr>]"
    unfolding loop segs st by (simp add: lens n4)
  have lb: "concat (bufferChunks (foldl packGeometry unaligned_state [(line_unit, 0)])) =
       [1, 2, 3, 4, 5] @ [0, 0, 0] @ f32_bytes (positions line_unit)
       @ f32_bytes (the (colors line_unit))"
    unfolding loop segs st by (simp add: lens n4 r3)
  have ll: "bufferLength (foldl packGeometry unaligned_state [(line_unit, 0)]) = 56"
    unfolding loop segs st by (simp add: lens n4)
  have f: "bufferChunks (padBufferEnd unaligned_state) = [[1, 2, 3, 4, 5], [0, 0, 0]]"
    "bufferLength (padBufferEnd unaligned_state) = 8"
    unfolding final st by (simp_all add: n4 r3)
  from ne v blen l b c a lv lb ll f show ?thesis by (simp only: simp_thms)
qed

section \<open>Fan triangulation and the streams of a mesh unit\<close>

lemma length_spread [simp]: "length (spread v) = 3"
  by (cases v) auto

text \<open>The fan of a polygon of \<open>n\<close> vertices, as index triples.\<close>

definition fan_triangles :: "nat \<Rightarrow> (nat \<times> nat \<times> nat) list" where
  "fan_triangles n = map (\<lambda>i. (0, i, i + 1)) [1..<n - 1]"

definition transformed :: "CsgLike \<Rightarrow> jsval list \<Rightarrow> Vec3 list" where
  "transformed csg vertices =
     map (\<lambda>vertex. applyTransform (extractVertexPosition vertex) (transforms csg)) vertices"

definition triangle_normal :: "Vec3 \<Rightarrow> Vec3 \<Rightarrow> Vec3 \<Rightarrow> Vec3" where
  "triangle_normal a b c = normalize (cross (subtract b a) (subtract c a))"

definition fan_positions :: "CsgLike \<Rightarrow> jsval list \<Rightarrow> jsnum list" where
  "fan_positions csg vertices =
     concat (map (\<lambda>(i, j, k). spread (transformed csg vertices ! i)
                             @ spread (transformed csg vertices ! j)
                             @ spread (transformed csg vertices ! k))
               (fan_triangles (length vertices)))"

definition fan_normals :: "CsgLike \<Rightarrow> jsval list \<Rightarrow> jsnum list" where
  "fan_normals csg vertices =
     concat (map (\<lambda>(i, j, k).
                let n = triangle_normal (transformed csg vertices ! i)
                          (transformed csg vertices ! j) (transformed csg vertices ! k)
                in spread n @ spread n @ spread n)
               (fan_triangles (length vertices)))"

definition fan_colors :: "ColorTuple \<Rightarrow> jsval list \<Rightarrow> jsnum list" where
  "fan_colors defaultColor vertices =
     concat (map (\<lambda>(i, j, k). spread (extractVertexColor (vertices ! i) defaultColor)
                             @ spread (extractVertexColor (vertices ! j) defaultColor)
                             @ spread (extractVertexColor (vertices ! k) defaultColor))
               (fan_triangles (length vertices)))"

lemma fan_loop_closed:
  "fan_loop tv vc i acc =
     \<lparr>s_positions = s_positions acc @
        concat (map (\<lambda>j. spread (tv ! 0) @ spread (tv ! j) @ spread (tv ! (j + 1)))
                  [i..<length tv - 1]),
      s_normals = s_normals acc @
        concat (map (\<lambda>j. let n = triangle_normal (tv ! 0) (tv ! j) (tv ! (j + 1))
                          in spread n @ spread n @ spread n)
                  [i..<length tv - 1]),
      s_colors = s_colors acc @
        concat (map (\<lambda>j. spread (vc ! 0) @ spread (vc ! j) @ spread (vc ! (j + 1)))
                  [i..<length tv - 1])\<rparr>"
proof (induction tv vc i acc rule: fan_loop.induct)
  case (1 tv vc i acc)
  show ?case
  proof (cases "i < length tv - 1")
    case True
    then have u: "[i..<length tv - 1] = i # [i + 1..<length tv - 1]"
      by (simp add: upt_conv_Cons)
    have "fan_loop tv vc i acc = fan_loop tv vc (i + 1) (push_triangle tv vc i acc)"
      using True by (subst fan_loop.simps) simp
    also note "1.IH"[OF True]
    finally show ?thesis
      unfolding u by (simp add: push_triangle_def triangle_normal_def Let_def)
  next
    case False
    then show ?thesis
      by (subst fan_loop.simps) simp
  qed
qed

lemma polygon_step_closed:
  "polygon_step csg dc acc vs =
     (if length vs < 3 then acc
      else \<lparr>s_positions = s_positions acc @ fan_positions csg vs,
             s_normals = s_normals acc @ fan_normals csg vs,
             s_colors = s_colors acc @ fan_colors dc vs\<rparr>)"
proof (cases "length vs < 3")
  case True
  then show ?thesis by (simp add: polygon_step_def)
next
  case False
  then have n: "3 \<le> length vs" by simp
  from n have z: "0 < length vs" by linarith
  show ?thesis
    using False n z
    apply (simp add: polygon_step_def Let_def fan_loop_closed fan_positions_def fan_normals_def
        fan_colors_def fan_triangles_def transformed_def comp_def)
    apply (intro conjI arg_cong[where f=concat] map_cong refl)
    apply (auto)
    done
qed


definition poly_positions :: "CsgLike \<Rightarrow> jsval list \<Rightarrow> jsnum list" where
  "poly_positions csg vs = (if length vs < 3 then [] else fan_positions csg vs)"

definition poly_normals :: "CsgLike \<Rightarrow> jsval list \<Rightarrow> jsnum list" where
  "poly_normals csg vs = (if length vs < 3 then [] else fan_normals csg vs)"

definition poly_colors :: "ColorTuple \<Rightarrow> jsval list \<Rightarrow> jsnum list" where
  "poly_colors dc vs = (if length vs < 3 then [] else fan_colors dc vs)"

lemma foldl_polygon_step_closed:
  "foldl (polygon_step csg dc) acc ps =
     \<lparr>s_positions = s_positions acc @ concat (map (poly_positions csg) ps),
      s_normals = s_normals acc @ concat (map (poly_normals csg) ps),
      s_colors = s_colors acc @ concat (map (poly_colors dc) ps)\<rparr>"
proof (induction ps arbitrary: acc)
  case Nil
  show ?case by simp
next
  case (Cons vs ps)
  have st: "polygon_step csg dc acc vs =
     (if length vs < 3 then acc
      else \<lparr>s_positions = s_positions acc @ fan_positions csg vs,
             s_normals = s_normals acc @ fan_normals csg vs,
             s_colors = s_colors acc @ fan_colors dc vs\<rparr>)"
    by (rule polygon_step_closed)
  show ?case
    apply (simp only: foldl_Cons Cons.IH)
    apply (simp only: st)
    apply (simp add: poly_positions_def poly_normals_def poly_colors_def)
    done
qed

lemma length_fan_triangles: "length (fan_triangles n) = n - 2"
  by (simp add: fan_triangles_def)

lemma nth_fan_triangles: "k < n - 2 \<Longrightarrow> fan_triangles n ! k = (0, k + 1, k + 2)"
  using nth_upt[of 1 k "n - 1"] by (simp add: fan_triangles_def)

lemma length_concat_const:
  assumes "\<And>x. x \<in> set xs \<Longrightarrow> length (f x) = c"
  shows "length (concat (map f xs)) = c * length xs"
  using assms by (induction xs) auto

lemma length_fan_positions: "length (fan_positions csg vs) = 9 * (length vs - 2)"
  unfolding fan_positions_def
  by (subst length_concat_const[where c = 9]) (auto simp: length_fan_triangles)

lemma length_fan_normals: "length (fan_normals csg vs) = 9 * (length vs - 2)"
  unfolding fan_normals_def
  by (subst length_concat_const[where c = 9]) (auto simp: length_fan_triangles Let_def)

lemma length_fan_colors: "length (fan_colors dc vs) = 9 * (length vs - 2)"
  unfolding fan_colors_def
  by (subst length_concat_const[where c = 9]) (auto simp: length_fan_triangles)

lemma length_poly_streams:
  "length (poly_normals csg vs) = length (poly_positions csg vs)"
  "length (poly_colors dc vs) = length (poly_positions csg vs)"
  by (simp_all add: poly_normals_def poly_colors_def poly_positions_def length_fan_positions
      length_fan_normals length_fan_colors)

lemma length_concat_poly_streams:
  "length (concat (map (poly_normals csg) ps)) = length (concat (map (poly_positions csg) ps))"
  "length (concat (map (poly_colors dc) ps)) = length (concat (map (poly_positions csg) ps))"
  by (induction ps) (simp_all add: length_poly_streams)

lemma convertPolygonGeometry_Inr:
  assumes "convertPolygonGeometry fround csg nm = Inr g"
  obtains ps where "polygons csg = Some ps" "ps \<noteq> []"
    "concat (map (poly_positions csg) ps) \<noteq> []"
    "g = \<lparr>name = nm,
          positions = map fround (concat (map (poly_positions csg) ps)),
          normals = Some (map fround (concat (map (poly_normals csg) ps))),
          colors = Some (map fround (concat (map (poly_colors (shapeColor csg)) ps))),
          mode = GLTF_MODE_TRIANGLES\<rparr>"
proof -
  from assms obtain ps where ps: "polygons csg = Some ps" "ps \<noteq> []"
    by (auto simp: convertPolygonGeometry_def split: option.splits if_splits)
  let ?P = "concat (map (poly_positions csg) ps)"
  let ?C = "concat (map (poly_colors (shapeColor csg)) ps)"
  from assms ps have ne: "?P \<noteq> []"
    by (auto simp: convertPolygonGeometry_def Let_def foldl_polygon_step_closed no_streams_def
        split: if_splits)
  have "length ?C = length ?P" by (rule length_concat_poly_streams)
  with ne have cne: "?C \<noteq> []" by (metis length_0_conv)
  from assms ps ne cne have
    "g = \<lparr>name = nm, positions = map fround ?P,
          normals = Some (map fround (concat (map (poly_normals csg) ps))),
          colors = Some (map fround ?C), mode = GLTF_MODE_TRIANGLES\<rparr>"
    by (auto simp: convertPolygonGeometry_def Let_def foldl_polygon_step_closed no_streams_def
        split: if_splits)
  with ps ne show ?thesis by (rule that)
qed

lemma convertPolygonGeometry_total:
  assumes "polygons csg = Some ps" "concat (map (poly_positions csg) ps) \<noteq> []"
  shows "\<exists>g. convertPolygonGeometry fround csg nm = Inr g"
  using assms
  by (auto simp: convertPolygonGeometry_def Let_def foldl_polygon_step_closed no_streams_def)


text \<open>What every emitted mesh unit satisfies.\<close>

definition unit_streams_ok :: "GeometryData \<Rightarrow> bool" where
  "unit_streams_ok g \<longleftrightarrow>
     (\<exists>cs. colors g = Some cs \<and> length cs = length (positions g))
     \<and> 3 dvd length (positions g)
     \<and> (mode g = GLTF_MODE_TRIANGLES \<or> mode g = GLTF_MODE_LINES)
     \<and> (mode g = GLTF_MODE_TRIANGLES \<longrightarrow>
          (\<exists>ns. normals g = Some ns \<and> length ns = length (positions g)))
     \<and> (mode g = GLTF_MODE_LINES \<longrightarrow> normals g = None)"

lemma dvd_length_poly_positions: "3 dvd length (concat (map (poly_positions csg) ps))"
  by (induction ps) (simp_all add: poly_positions_def length_fan_positions)

lemma convertPolygonGeometry_ok:
  assumes "convertPolygonGeometry fround csg nm = Inr g"
  shows "unit_streams_ok g"
proof -
  from assms obtain ps where
    g: "g = \<lparr>name = nm,
          positions = map fround (concat (map (poly_positions csg) ps)),
          normals = Some (map fround (concat (map (poly_normals csg) ps))),
          colors = Some (map fround (concat (map (poly_colors (shapeColor csg)) ps))),
          mode = GLTF_MODE_TRIANGLES\<rparr>"
    by (rule convertPolygonGeometry_Inr)
  show ?thesis
    unfolding unit_streams_ok_def g
    by (simp add: length_concat_poly_streams dvd_length_poly_positions
        GLTF_MODE_TRIANGLES_def GLTF_MODE_LINES_def)
qed

definition line_streams_ok :: "streams \<Rightarrow> bool" where
  "line_streams_ok acc \<longleftrightarrow>
     length (s_colors acc) = length (s_positions acc) \<and> 3 dvd length (s_positions acc)"

lemma side_step_ok:
  assumes "side_step csg dc acc side = Inr acc'" "line_streams_ok acc"
  shows "line_streams_ok acc'"
  using assms
  by (auto simp: side_step_def line_streams_ok_def Let_def
      split: option.splits if_splits sum.splits)

lemma side_loop_ok:
  "side_loop csg dc acc ss = Inr acc' \<Longrightarrow> line_streams_ok acc \<Longrightarrow> line_streams_ok acc'"
proof (induction ss arbitrary: acc)
  case Nil
  then show ?case by simp
next
  case (Cons side rest)
  then show ?case
    by (auto split: sum.splits dest: side_step_ok)
qed

lemma convertSideGeometry_ok:
  assumes "convertSideGeometry fround csg nm = Inr g"
  shows "unit_streams_ok g"
proof -
  from assms obtain ss acc where
    l: "side_loop csg (shapeColor csg) no_streams ss = Inr acc" and ne: "s_positions acc \<noteq> []"
    and g: "g = \<lparr>name = nm, positions = map fround (s_positions acc), normals = None,
                colors = (if s_colors acc \<noteq> [] then Some (map fround (s_colors acc)) else None),
                mode = GLTF_MODE_LINES\<rparr>"
    by (auto simp: convertSideGeometry_def split: option.splits if_splits sum.splits)
  have "line_streams_ok no_streams" by (simp add: line_streams_ok_def no_streams_def)
  with l have ok: "line_streams_ok acc" by (rule side_loop_ok)
  with ne have "s_colors acc \<noteq> []"
    unfolding line_streams_ok_def by (metis length_0_conv)
  with ok show ?thesis
    unfolding unit_streams_ok_def g line_streams_ok_def
    by (simp add: GLTF_MODE_TRIANGLES_def GLTF_MODE_LINES_def)
qed

lemma collect_ok:
  "collectGeometries fround input nm = Inr gs \<Longrightarrow> list_all unit_streams_ok gs"
  "collectChildren fround children nm i = Inr gs' \<Longrightarrow> list_all unit_streams_ok gs'"
proof (induction fround input nm and fround children nm i arbitrary: gs and gs'
    rule: collectGeometries_collectChildren.induct)
  case (1 fround children nm)
  then show ?case by simp
next
  case (2 fround csg nm)
  show ?case
  proof (cases "polygons csg \<noteq> None")
    case True
    with 2 obtain g where "convertPolygonGeometry fround csg nm = Inr g" "gs = [g]"
      by (simp split: sum.splits)
    then show ?thesis using convertPolygonGeometry_ok by simp
  next
    case False
    note np = False
    show ?thesis
    proof (cases "sides csg \<noteq> None")
      case True
      with 2 np obtain g where "convertSideGeometry fround csg nm = Inr g" "gs = [g]"
        by (simp split: sum.splits)
      then show ?thesis using convertSideGeometry_ok by simp
    next
      case False
      with 2 np show ?thesis by simp
    qed
  qed
next
  case (3 fround nm index)
  then show ?case by simp
next
  case (4 fround child rest nm index)
  from "4.prems" obtain g1 g2 where
    a: "collectGeometries fround child (nm @ ''_'' @ digits_of index) = Inr g1"
    and b: "collectChildren fround rest nm (index + 1) = Inr g2"
    and c: "gs' = g1 @ g2"
    by (simp split: sum.splits)
  from "4.IH"(1)[OF a] "4.IH"(2)[OF a b] c show ?case by simp
qed

lemma length_cube_positions:
  assumes "\<And>vs. vs \<in> set ps \<Longrightarrow> length vs = 4"
  shows "length (concat (map (poly_positions csg) ps)) = 18 * length ps"
  by (rule length_concat_const) (simp add: assms poly_positions_def length_fan_positions)

text \<open>
  Claim C3.  A polygon with \<open>N \<ge> 3\<close> vertices gives the \<open>N - 2\<close> triangles
  \<open>(0,1,2), (0,2,3), \<dots>, (0,N-2,N-1)\<close>, nine position numbers for each in that order;
  a polygon with fewer than three vertices adds nothing; a solid of six quads gives one
  triangle-mode unit of 12 triangles, 36 vertices.
\<close>

theorem C3_fan_triangulation:
  "(3 \<le> length vs \<longrightarrow>
      length (fan_triangles (length vs)) = length vs - 2
      \<and> (\<forall>k < length vs - 2. fan_triangles (length vs) ! k = (0, k + 1, k + 2))
      \<and> s_positions (polygon_step csg dc acc vs) = s_positions acc @ fan_positions csg vs
      \<and> length (fan_positions csg vs) = 9 * (length vs - 2))
   \<and> (length vs < 3 \<longrightarrow> polygon_step csg dc acc vs = acc)
   \<and> (polygons csg = Some ps \<and> convertPolygonGeometry fround csg nm = Inr g \<longrightarrow>
        positions g = map fround (concat (map (poly_positions csg) ps)))
   \<and> (polygons csg = Some ps \<and> length ps = 6 \<and> (\<forall>vs \<in> set ps. length vs = 4) \<longrightarrow>
        (\<exists>g. collectGeometries fround (Geom csg) nm = Inr [g]
             \<and> mode g = GLTF_MODE_TRIANGLES \<and> length (positions g) = 9 * 12))"
proof (intro conjI impI)
  assume "3 \<le> length vs"
  then show "s_positions (polygon_step csg dc acc vs) = s_positions acc @ fan_positions csg vs"
    by (simp add: polygon_step_closed)
next
  show "length (fan_triangles (length vs)) = length vs - 2"
    by (rule length_fan_triangles)
next
  show "\<forall>k < length vs - 2. fan_triangles (length vs) ! k = (0, k + 1, k + 2)"
    by (simp add: nth_fan_triangles)
next
  show "length (fan_positions csg vs) = 9 * (length vs - 2)"
    by (rule length_fan_positions)
next
  assume "length vs < 3"
  then show "polygon_step csg dc acc vs = acc"
    by (simp add: polygon_step_def)
next
  assume a: "polygons csg = Some ps \<and> convertPolygonGeometry fround csg nm = Inr g"
  then have "convertPolygonGeometry fround csg nm = Inr g" by simp
  then obtain ps' where "polygons csg = Some ps'"
    "g = \<lparr>name = nm,
          positions = map fround (concat (map (poly_positions csg) ps')),
          normals = Some (map fround (concat (map (poly_normals csg) ps'))),
          colors = Some (map fround (concat (map (poly_colors (shapeColor csg)) ps'))),
          mode = GLTF_MODE_TRIANGLES\<rparr>"
    by (rule convertPolygonGeometry_Inr)
  with a show "positions g = map fround (concat (map (poly_positions csg) ps))"
    by simp
next
  assume a: "polygons csg = Some ps \<and> length ps = 6 \<and> (\<forall>vs \<in> set ps. length vs = 4)"
  then have len: "length (concat (map (poly_positions csg) ps)) = 18 * length ps"
    by (intro length_cube_positions) simp
  with a have ne: "concat (map (poly_positions csg) ps) \<noteq> []"
    by (metis length_0_conv mult_is_0 zero_neq_numeral)
  from a ne obtain g where g: "convertPolygonGeometry fround csg nm = Inr g"
    using convertPolygonGeometry_total by blast
  then obtain ps' where "polygons csg = Some ps'"
    "g = \<lparr>name = nm,
          positions = map fround (concat (map (poly_positions csg) ps')),
          normals = Some (map fround (concat (map (poly_normals csg) ps'))),
          colors = Some (map fround (concat (map (poly_colors (shapeColor csg)) ps'))),
          mode = GLTF_MODE_TRIANGLES\<rparr>"
    by (rule convertPolygonGeometry_Inr)
  with a len have "mode g = GLTF_MODE_TRIANGLES \<and> length (positions g) = 9 * 12"
    by simp
  moreover from a g have "collectGeometries fround (Geom csg) nm = Inr [g]"
    by simp
  ultimately show "\<exists>g. collectGeometries fround (Geom csg) nm = Inr [g]
      \<and> mode g = GLTF_MODE_TRIANGLES \<and> length (positions g) = 9 * 12"
    by blast
qed

text \<open>A unit square in the plane \<open>z = 0\<close>, and a unit cube of six such faces.\<close>

definition pt :: "real \<Rightarrow> real \<Rightarrow> real \<Rightarrow> jsval" where
  "pt x y z = JArr [JNum (Fin x), JNum (Fin y), JNum (Fin z)]"

definition quad_example :: "jsval list" where
  "quad_example = [pt 0 0 0, pt 1 0 0, pt 1 1 0, pt 0 1 0]"

definition cube_example :: CsgLike where
  "cube_example =
     \<lparr>polygons = Some
        [[pt 0 0 0, pt 0 0 1, pt 0 1 1, pt 0 1 0],
         [pt 1 0 0, pt 1 1 0, pt 1 1 1, pt 1 0 1],
         [pt 0 0 0, pt 1 0 0, pt 1 0 1, pt 0 0 1],
         [pt 0 1 0, pt 0 1 1, pt 1 1 1, pt 1 1 0],
         [pt 0 0 0, pt 0 1 0, pt 1 1 0, pt 1 0 0],
         [pt 0 0 1, pt 1 0 1, pt 1 1 1, pt 0 1 1]],
      sides = None, color = JUndefined, transforms = None\<rparr>"

lemma extractVertexPosition_pt:
  "extractVertexPosition (pt x y z) = (or_zero (Fin x), or_zero (Fin y), or_zero (Fin z))"
  by (simp add: extractVertexPosition_def pt_def isArrayOf3_def coords_def arrayOf_def elem_def)

lemma fan_positions_quad_example:
  "fan_positions cube_example quad_example =
     map Fin [0, 0, 0, 1, 0, 0, 1, 1, 0,
              0, 0, 0, 1, 1, 0, 0, 1, 0]"
  by (simp add: fan_positions_def fan_triangles_def transformed_def quad_example_def
      cube_example_def extractVertexPosition_pt applyTransform_def or_zero_def upt_rec)

theorem C3_fan_triangulation_witness:
  "3 \<le> length quad_example
   \<and> fan_triangles (length quad_example) = [(0, 1, 2), (0, 2, 3)]
   \<and> s_positions (polygon_step cube_example white no_streams quad_example) =
       map Fin [0, 0, 0, 1, 0, 0, 1, 1, 0,
                0, 0, 0, 1, 1, 0, 0, 1, 0]
   \<and> polygon_step cube_example white no_streams [pt 0 0 0, pt 1 0 0] = no_streams
   \<and> (\<forall>fround. \<exists>g. collectGeometries fround (Geom cube_example) ''cube'' = Inr [g]
         \<and> mode g = GLTF_MODE_TRIANGLES \<and> length (positions g) = 108)"
proof -
  have q: "3 \<le> length quad_example" by (simp add: quad_example_def)
  have c: "polygons cube_example = Some (the (polygons cube_example))
      \<and> length (the (polygons cube_example)) = 6
      \<and> (\<forall>vs \<in> set (the (polygons cube_example)). length vs = 4)"
    by (simp add: cube_example_def)
  have t: "fan_triangles (length quad_example) = [(0, 1, 2), (0, 2, 3)]"
    by (simp add: fan_triangles_def quad_example_def upt_rec)
  have "s_positions (polygon_step cube_example white no_streams quad_example)
          = s_positions no_streams @ fan_positions cube_example quad_example"
    using C3_fan_triangulation[where vs = quad_example and csg = cube_example and dc = white
        and acc = no_streams] q by blast
  moreover have "polygon_step cube_example white no_streams [pt 0 0 0, pt 1 0 0] = no_streams"
    using C3_fan_triangulation[where vs = "[pt 0 0 0, pt 1 0 0]" and csg = cube_example
        and dc = white and acc = no_streams] by simp
  moreover have "\<forall>fround. \<exists>g. collectGeometries fround (Geom cube_example) ''cube'' = Inr [g]
         \<and> mode g = GLTF_MODE_TRIANGLES \<and> length (positions g) = 108"
    using C3_fan_triangulation[where csg = cube_example
        and ps = "the (polygons cube_example)" and nm = "''cube''"] c
    by simp
  ultimately show ?thesis
    using q t by (simp add: fan_positions_quad_example no_streams_def)
qed

lemma truthy_num_iff_not_zero_NaN: "truthy_num l \<longleftrightarrow> \<not> (l = Fin 0 \<or> l = NaN)"
  by (cases l) simp_all

text \<open>
  Claim C4.  Every triangle of a polygon carries, on each of its three vertices, the
  normal \<open>normalize (cross (B - A) (C - A))\<close> of its own three transformed positions, and
  of no other vertex.  The difference and the cross product are the componentwise ones;
  \<open>normalize\<close> gives \<open>[0,0,1]\<close> when the length \<open>Math.hypot\<close> computes for its argument
  is zero or \<open>NaN\<close>, and otherwise the argument divided, component by component, by that
  computed length.
\<close>

theorem C4_flat_normals:
  "(polygons csg = Some ps \<and> convertPolygonGeometry fround csg nm = Inr g \<longrightarrow>
      normals g = Some (map fround (concat (map (poly_normals csg) ps))))
   \<and> poly_normals csg vs =
       (if length vs < 3 then []
        else concat (map (\<lambda>(i, j, k).
               let A = transformed csg vs ! i; B = transformed csg vs ! j;
                   C = transformed csg vs ! k;
                   n = normalize (cross (subtract B A) (subtract C A))
               in spread n @ spread n @ spread n)
             (fan_triangles (length vs))))
   \<and> (i < length vs \<longrightarrow>
        transformed csg vs ! i = applyTransform (extractVertexPosition (vs ! i)) (transforms csg))
   \<and> subtract (b0, b1, b2) (a0, a1, a2) = (b0 - a0, b1 - a1, b2 - a2)
   \<and> cross (u0, u1, u2) (w0, w1, w2) =
       (u1 * w2 - u2 * w1, u2 * w0 - u0 * w2, u0 * w1 - u1 * w0)
   \<and> normalize (v0, v1, v2) =
       (if Math_hypot v0 v1 v2 = Fin 0 \<or> Math_hypot v0 v1 v2 = NaN then (Fin 0, Fin 0, Fin 1)
        else (v0 / Math_hypot v0 v1 v2, v1 / Math_hypot v0 v1 v2, v2 / Math_hypot v0 v1 v2))
   \<and> (Math_hypot v0 v1 v2 = Fin 0 \<longrightarrow> normalize (v0, v1, v2) = (Fin 0, Fin 0, Fin 1))"
proof (intro conjI impI)
  assume a: "polygons csg = Some ps \<and> convertPolygonGeometry fround csg nm = Inr g"
  then have "convertPolygonGeometry fround csg nm = Inr g" by simp
  then obtain ps' where "polygons csg = Some ps'"
    "g = \<lparr>name = nm,
          positions = map fround (concat (map (poly_positions csg) ps')),
          normals = Some (map fround (concat (map (poly_normals csg) ps'))),
          colors = Some (map fround (concat (map (poly_colors (shapeColor csg)) ps'))),
          mode = GLTF_MODE_TRIANGLES\<rparr>"
    by (rule convertPolygonGeometry_Inr)
  with a show "normals g = Some (map fround (concat (map (poly_normals csg) ps)))"
    by simp
next
  show "poly_normals csg vs =
       (if length vs < 3 then []
        else concat (map (\<lambda>(i, j, k).
               let A = transformed csg vs ! i; B = transformed csg vs ! j;
                   C = transformed csg vs ! k;
                   n = normalize (cross (subtract B A) (subtract C A))
               in spread n @ spread n @ spread n)
             (fan_triangles (length vs))))"
    by (simp add: poly_normals_def fan_normals_def triangle_normal_def Let_def)
next
  assume "i < length vs"
  then show "transformed csg vs ! i
      = applyTransform (extractVertexPosition (vs ! i)) (transforms csg)"
    by (simp add: transformed_def)
next
  show "subtract (b0, b1, b2) (a0, a1, a2) = (b0 - a0, b1 - a1, b2 - a2)" by simp
next
  show "cross (u0, u1, u2) (w0, w1, w2) =
       (u1 * w2 - u2 * w1, u2 * w0 - u0 * w2, u0 * w1 - u1 * w0)"
    by simp
next
  show "normalize (v0, v1, v2) =
       (if Math_hypot v0 v1 v2 = Fin 0 \<or> Math_hypot v0 v1 v2 = NaN then (Fin 0, Fin 0, Fin 1)
        else (v0 / Math_hypot v0 v1 v2, v1 / Math_hypot v0 v1 v2, v2 / Math_hypot v0 v1 v2))"
    by (simp add: Let_def truthy_num_iff_not_zero_NaN del: Math_hypot.simps)
next
  assume "Math_hypot v0 v1 v2 = Fin 0"
  then show "normalize (v0, v1, v2) = (Fin 0, Fin 0, Fin 1)" by (simp add: Let_def)
qed

text \<open>
  One face of the cube as a solid of its own, grey, moved by 2 along \<open>x\<close> (the matrix is
  column-major: the translation is in entries 12 to 14).
\<close>

definition translate_x2 :: "jsnum list" where
  "translate_x2 = map Fin [1, 0, 0, 0,  0, 1, 0, 0,  0, 0, 1, 0,  2, 0, 0, 1]"

definition face_example :: "jsval list" where
  "face_example = [pt 0 0 0, pt 0 0 1, pt 0 1 1, pt 0 1 0]"

definition square_example :: CsgLike where
  "square_example =
     \<lparr>polygons = Some [face_example], sides = None,
      color = JArr [JNum (Fin (1/2)), JNum (Fin (1/2)), JNum (Fin (1/2))],
      transforms = Some translate_x2\<rparr>"

lemma applyTransform_translate_x2:
  "applyTransform (Fin x, Fin y, Fin z) (Some translate_x2) = (Fin (x + 2), Fin y, Fin z)"
  by (simp add: applyTransform_def translate_x2_def jsnum_arith)

lemma transformed_square_example:
  "transformed square_example face_example =
     [(Fin 2, Fin 0, Fin 0), (Fin 2, Fin 0, Fin 1), (Fin 2, Fin 1, Fin 1), (Fin 2, Fin 1, Fin 0)]"
  by (simp add: transformed_def square_example_def face_example_def extractVertexPosition_pt
      or_zero_def applyTransform_translate_x2)

lemma fan_triangles_4: "fan_triangles 4 = [(0, 1, 2), (0, 2, 3)]"
  by (simp add: fan_triangles_def upt_rec)

lemma poly_positions_square_example:
  "poly_positions square_example face_example =
     map Fin [2, 0, 0, 2, 0, 1, 2, 1, 1,  2, 0, 0, 2, 1, 1, 2, 1, 0]"
proof -
  have l: "length face_example = 4" by (simp add: face_example_def)
  show ?thesis
    by (simp add: poly_positions_def fan_positions_def l fan_triangles_4
        transformed_square_example)
qed

text \<open>
  A quadrilateral that is neither planar nor parallel to an axis, moved by 2 along \<open>x\<close>:
  its two fan triangles have the cross products \<open>(2, 3, 6)\<close> and \<open>(4, -2, -4)\<close>.
\<close>

definition tilted_face :: "jsval list" where
  "tilted_face = [pt 0 0 0, pt 3 (-2) 0, pt 0 2 (-1), pt 2 0 2]"

definition tilted_example :: CsgLike where
  "tilted_example =
     \<lparr>polygons = Some [tilted_face], sides = None, color = JUndefined,
      transforms = Some translate_x2\<rparr>"

lemma transformed_tilted_example:
  "transformed tilted_example tilted_face =
     [(Fin 2, Fin 0, Fin 0), (Fin 5, Fin (-2), Fin 0), (Fin 2, Fin 2, Fin (-1)),
      (Fin 4, Fin 0, Fin 2)]"
  by (simp add: transformed_def tilted_example_def tilted_face_def extractVertexPosition_pt
      or_zero_def applyTransform_translate_x2)

lemma cross_tilted_example:
  "cross (subtract (Fin 5, Fin (-2), Fin 0) (Fin 2, Fin 0, Fin 0))
         (subtract (Fin 2, Fin 2, Fin (-1)) (Fin 2, Fin 0, Fin 0)) = (Fin 2, Fin 3, Fin 6)"
  "cross (subtract (Fin 2, Fin 2, Fin (-1)) (Fin 2, Fin 0, Fin 0))
         (subtract (Fin 4, Fin 0, Fin 2) (Fin 2, Fin 0, Fin 0)) = (Fin 4, Fin (-2), Fin (-4))"
  by (simp_all add: jsnum_arith)

lemma hypot_tilted_example:
  "Math_hypot (Fin 2) (Fin 3) (Fin 6) \<noteq> Fin 0" "Math_hypot (Fin 2) (Fin 3) (Fin 6) \<noteq> NaN"
  "Math_hypot (Fin 4) (Fin (-2)) (Fin (-4)) \<noteq> Fin 0"
  "Math_hypot (Fin 4) (Fin (-2)) (Fin (-4)) \<noteq> NaN"
  by simp_all

definition tilted_normals :: "jsnum list" where
  "tilted_normals =
     (let l = Math_hypot (Fin 2) (Fin 3) (Fin 6);
          m = Math_hypot (Fin 4) (Fin (-2)) (Fin (-4))
      in [Fin 2 / l, Fin 3 / l, Fin 6 / l,  Fin 2 / l, Fin 3 / l, Fin 6 / l,
          Fin 2 / l, Fin 3 / l, Fin 6 / l,
          Fin 4 / m, Fin (-2) / m, Fin (-4) / m,  Fin 4 / m, Fin (-2) / m, Fin (-4) / m,
          Fin 4 / m, Fin (-2) / m, Fin (-4) / m])"

lemma poly_positions_tilted_example:
  "poly_positions tilted_example tilted_face =
     map Fin [2, 0, 0, 5, -2, 0, 2, 2, -1,  2, 0, 0, 2, 2, -1, 4, 0, 2]"
proof -
  have l: "length tilted_face = 4" by (simp add: tilted_face_def)
  show ?thesis
    by (simp add: poly_positions_def fan_positions_def l fan_triangles_4
        transformed_tilted_example)
qed

theorem C4_flat_normals_witness:
  "(\<forall>fround. \<exists>g. polygons tilted_example = Some [tilted_face]
        \<and> convertPolygonGeometry fround tilted_example ''t'' = Inr g
        \<and> normals g = Some (map fround tilted_normals))
   \<and> 1 < length tilted_face
   \<and> transformed tilted_example tilted_face ! 1 = (Fin 5, Fin (-2), Fin 0)
   \<and> cross (subtract (Fin 5, Fin (-2), Fin 0) (Fin 2, Fin 0, Fin 0))
            (subtract (Fin 2, Fin 2, Fin (-1)) (Fin 2, Fin 0, Fin 0)) = (Fin 2, Fin 3, Fin 6)
   \<and> normalize (Fin 2, Fin 3, Fin 6) =
       (Fin 2 / Math_hypot (Fin 2) (Fin 3) (Fin 6), Fin 3 / Math_hypot (Fin 2) (Fin 3) (Fin 6),
        Fin 6 / Math_hypot (Fin 2) (Fin 3) (Fin 6))
   \<and> Math_hypot (Fin 0) (Fin 0) (Fin 0) = Fin 0
   \<and> normalize (cross (subtract (Fin 1, Fin 2, Fin 3) (Fin 0, Fin 0, Fin 0))
                      (subtract (Fin 2, Fin 4, Fin 6) (Fin 0, Fin 0, Fin 0)))
       = (Fin 0, Fin 0, Fin 1)"
proof -
  have p: "polygons tilted_example = Some [tilted_face]"
    by (simp add: tilted_example_def)
  have l: "length tilted_face = 4" by (simp add: tilted_face_def)
  have ne: "concat (map (poly_positions tilted_example) [tilted_face]) \<noteq> []"
    by (simp add: poly_positions_tilted_example)
  have n1: "normalize (Fin 2, Fin 3, Fin 6) =
       (Fin 2 / Math_hypot (Fin 2) (Fin 3) (Fin 6), Fin 3 / Math_hypot (Fin 2) (Fin 3) (Fin 6),
        Fin 6 / Math_hypot (Fin 2) (Fin 3) (Fin 6))"
    using C4_flat_normals[where ?v0.0 = "Fin 2" and ?v1.0 = "Fin 3" and ?v2.0 = "Fin 6"]
      hypot_tilted_example
    by presburger
  have n2: "normalize (Fin 4, Fin (-2), Fin (-4)) =
       (Fin 4 / Math_hypot (Fin 4) (Fin (-2)) (Fin (-4)),
        Fin (-2) / Math_hypot (Fin 4) (Fin (-2)) (Fin (-4)),
        Fin (-4) / Math_hypot (Fin 4) (Fin (-2)) (Fin (-4)))"
    using C4_flat_normals[where ?v0.0 = "Fin 4" and ?v1.0 = "Fin (-2)" and ?v2.0 = "Fin (-4)"]
      hypot_tilted_example
    by presburger
  have nl: "((4::nat) < 3) = False" by simp
  have e: "[(Fin 2, Fin 0, Fin 0), (Fin 5, Fin (-2), Fin 0), (Fin 2, Fin 2, Fin (-1)),
            (Fin 4, Fin 0, Fin 2)] ! 0 = (Fin 2, Fin 0, Fin 0)"
    "[(Fin 2, Fin 0, Fin 0), (Fin 5, Fin (-2), Fin 0), (Fin 2, Fin 2, Fin (-1)),
      (Fin 4, Fin 0, Fin 2)] ! 1 = (Fin 5, Fin (-2), Fin 0)"
    "[(Fin 2, Fin 0, Fin 0), (Fin 5, Fin (-2), Fin 0), (Fin 2, Fin 2, Fin (-1)),
      (Fin 4, Fin 0, Fin 2)] ! 2 = (Fin 2, Fin 2, Fin (-1))"
    "[(Fin 2, Fin 0, Fin 0), (Fin 5, Fin (-2), Fin 0), (Fin 2, Fin 2, Fin (-1)),
      (Fin 4, Fin 0, Fin 2)] ! 3 = (Fin 4, Fin 0, Fin 2)"
    by simp_all
  have pn: "poly_normals tilted_example tilted_face = tilted_normals"
  proof -
    from C4_flat_normals[where csg = tilted_example and vs = tilted_face]
    have "poly_normals tilted_example tilted_face =
       (if length tilted_face < 3 then []
        else concat (map (\<lambda>(i, j, k).
               let A = transformed tilted_example tilted_face ! i;
                   B = transformed tilted_example tilted_face ! j;
                   C = transformed tilted_example tilted_face ! k;
                   n = normalize (cross (subtract B A) (subtract C A))
               in spread n @ spread n @ spread n)
             (fan_triangles (length tilted_face))))"
      by blast
    also have "\<dots> = tilted_normals"
      unfolding l fan_triangles_4 transformed_tilted_example
      by (simp only: list.map prod.case Let_def e cross_tilted_example n1 n2 tilted_normals_def
          spread.simps concat.simps append.simps if_False nl)
    finally show ?thesis .
  qed
  have "\<exists>g. polygons tilted_example = Some [tilted_face]
        \<and> convertPolygonGeometry fround tilted_example ''t'' = Inr g
        \<and> normals g = Some (map fround tilted_normals)"
    for fround
  proof -
    from convertPolygonGeometry_total[OF p ne]
    obtain g where g: "convertPolygonGeometry fround tilted_example ''t'' = Inr g" by blast
    with p C4_flat_normals[where csg = tilted_example and ps = "[tilted_face]"
        and fround = fround and nm = "''t''" and g = g]
    have "normals g = Some (map fround (concat (map (poly_normals tilted_example) [tilted_face])))"
      by blast
    with p g show ?thesis by (auto simp: pn)
  qed
  moreover have "transformed tilted_example tilted_face ! 1 = (Fin 5, Fin (-2), Fin 0)"
    by (simp add: transformed_tilted_example)
  moreover have "Math_hypot (Fin 0) (Fin 0) (Fin 0) = Fin 0" by simp
  moreover have "normalize (cross (subtract (Fin 1, Fin 2, Fin 3) (Fin 0, Fin 0, Fin 0))
                      (subtract (Fin 2, Fin 4, Fin 6) (Fin 0, Fin 0, Fin 0)))
       = (Fin 0, Fin 0, Fin 1)"
  proof -
    have c: "cross (subtract (Fin 1, Fin 2, Fin 3) (Fin 0, Fin 0, Fin 0))
                      (subtract (Fin 2, Fin 4, Fin 6) (Fin 0, Fin 0, Fin 0))
        = (Fin 0, Fin 0, Fin 0)"
      by (simp add: jsnum_arith)
    show ?thesis
      unfolding c
      using C4_flat_normals[where ?v0.0 = "Fin 0" and ?v1.0 = "Fin 0" and ?v2.0 = "Fin 0"]
      by simp
  qed
  ultimately show ?thesis
    using n1 cross_tilted_example(1) l by simp
qed

text \<open>
  Claim C10.  Every mesh unit the triangulator emits has a colour stream, as long as
  its position stream, whose length is a multiple of 3; a triangle-mode unit has a normal
  stream of that length too, and a line-mode unit has none.
\<close>

theorem C10_streams_present:
  assumes "collectGeometries fround input nm = Inr gs" and "g \<in> set gs"
  shows "(\<exists>cs. colors g = Some cs \<and> length cs = length (positions g))
     \<and> 3 dvd length (positions g)
     \<and> (mode g = GLTF_MODE_TRIANGLES \<or> mode g = GLTF_MODE_LINES)
     \<and> (mode g = GLTF_MODE_TRIANGLES \<longrightarrow>
          (\<exists>ns. normals g = Some ns \<and> length ns = length (positions g)))
     \<and> (mode g = GLTF_MODE_LINES \<longrightarrow> normals g = None)"
proof -
  from assms(1) have "list_all unit_streams_ok gs" by (rule collect_ok)
  with assms(2) have "unit_streams_ok g" by (simp add: list_all_iff)
  then show ?thesis by (simp add: unit_streams_ok_def)
qed

text \<open>A 2D shape with one side of four points, without colour or transform.\<close>

definition pt2 :: "real \<Rightarrow> real \<Rightarrow> jsval" where
  "pt2 x y = JArr [JNum (Fin x), JNum (Fin y)]"

definition line_example :: CsgLike where
  "line_example =
     \<lparr>polygons = None, sides = Some [JArr [pt2 1 0, pt2 1 1, pt2 0 1, pt2 3 5]],
      color = JUndefined, transforms = None\<rparr>"

lemma rawPoint_pt2: "rawPoint (pt2 x y) = Inr (or_zero (Fin x), or_zero (Fin y), Fin 0)"
  by (simp add: rawPoint_def pt2_def elem_def or_zero_def)

lemma convertSideGeometry_line_example:
  "convertSideGeometry fround line_example nm =
     Inr \<lparr>name = nm, positions = map fround (map Fin [1, 0, 0, 3, 5, 0]), normals = None,
          colors = Some (map fround (map Fin [1, 1, 1, 1, 1, 1])), mode = GLTF_MODE_LINES\<rparr>"
  by (simp add: convertSideGeometry_def line_example_def side_step_def arrayOf_def elem_def
      rawPoint_pt2 or_zero_def applyTransform_def shapeColor_def white_def no_streams_def)

lemma convertPolygonGeometry_square_example:
  "\<exists>g. convertPolygonGeometry fround square_example nm = Inr g \<and> name g = nm
       \<and> mode g = GLTF_MODE_TRIANGLES \<and> length (positions g) = 18"
proof -
  have p: "polygons square_example = Some [face_example]"
    by (simp add: square_example_def)
  have ne: "concat (map (poly_positions square_example) [face_example]) \<noteq> []"
    by (simp add: poly_positions_square_example)
  from convertPolygonGeometry_total[OF p ne]
  obtain g where g: "convertPolygonGeometry fround square_example nm = Inr g" by blast
  then obtain ps' where "polygons square_example = Some ps'"
    "g = \<lparr>name = nm,
          positions = map fround (concat (map (poly_positions square_example) ps')),
          normals = Some (map fround (concat (map (poly_normals square_example) ps'))),
          colors = Some (map fround
            (concat (map (poly_colors (shapeColor square_example)) ps'))),
          mode = GLTF_MODE_TRIANGLES\<rparr>"
    by (rule convertPolygonGeometry_Inr)
  with p g show ?thesis by (auto simp: poly_positions_square_example)
qed

lemma digits_of_small: "digits_of 0 = ''0''" "digits_of (Suc 0) = ''1''"
  by (simp_all add: digits_of.simps char_of_eq_iff)

theorem C10_streams_present_witness:
  "\<forall>fround. \<exists>g1 g2.
      collectGeometries fround (Group [Geom square_example, Geom line_example]) ''m''
        = Inr [g1, g2]
      \<and> g2 \<in> set [g1, g2]
      \<and> name g1 = ''m_0'' \<and> mode g1 = GLTF_MODE_TRIANGLES
      \<and> name g2 = ''m_1'' \<and> mode g2 = GLTF_MODE_LINES
      \<and> positions g2 = map fround (map Fin [1, 0, 0, 3, 5, 0])
      \<and> colors g2 = Some (map fround (map Fin [1, 1, 1, 1, 1, 1]))
      \<and> normals g2 = None
      \<and> (\<exists>ns. normals g1 = Some ns \<and> length ns = length (positions g1))"
proof
  fix fround
  obtain g1 where g1: "convertPolygonGeometry fround square_example ''m_0'' = Inr g1"
    "name g1 = ''m_0''" "mode g1 = GLTF_MODE_TRIANGLES"
    using convertPolygonGeometry_square_example by blast
  define g2 where "g2 = \<lparr>name = ''m_1'', positions = map fround (map Fin [1, 0, 0, 3, 5, 0]),
     normals = None, colors = Some (map fround (map Fin [1, 1, 1, 1, 1, 1])),
     mode = GLTF_MODE_LINES\<rparr>"
  have c: "collectGeometries fround (Group [Geom square_example, Geom line_example]) ''m''
        = Inr [g1, g2]"
    by (simp add: g1 g2_def digits_of_small convertSideGeometry_line_example
        square_example_def[THEN arg_cong, of polygons] line_example_def[THEN arg_cong, of polygons]
        line_example_def[THEN arg_cong, of sides])
  from C10_streams_present[OF c, of g1] g1
  have "\<exists>ns. normals g1 = Some ns \<and> length ns = length (positions g1)" by simp
  with c g1 show "\<exists>g1 g2.
      collectGeometries fround (Group [Geom square_example, Geom line_example]) ''m''
        = Inr [g1, g2]
      \<and> g2 \<in> set [g1, g2]
      \<and> name g1 = ''m_0'' \<and> mode g1 = GLTF_MODE_TRIANGLES
      \<and> name g2 = ''m_1'' \<and> mode g2 = GLTF_MODE_LINES
      \<and> positions g2 = map fround (map Fin [1, 0, 0, 3, 5, 0])
      \<and> colors g2 = Some (map fround (map Fin [1, 1, 1, 1, 1, 1]))
      \<and> normals g2 = None
      \<and> (\<exists>ns. normals g1 = Some ns \<and> length ns = length (positions g1))"
    by (intro exI[of _ g1] exI[of _ g2]) (simp add: g2_def)
qed

section \<open>The colour resolver on arrays and hex strings\<close>

text \<open>The normalisation of one channel, in the words of the specification.\<close>

definition channel_spec :: "jsnum \<Rightarrow> jsnum" where
  "channel_spec v =
     (case v of
        Fin r \<Rightarrow> if 1 < r then Fin (min (r / 255) 1) else if r < 0 then Fin 0 else Fin r
      | _ \<Rightarrow> Fin 0)"

lemma normalizeColorChannel_spec: "normalizeColorChannel v = channel_spec v"
  by (cases v) (auto simp: normalizeColorChannel_def channel_spec_def Math_min_def jsnum_arith)

lemma channel_spec_unit: "Fin 0 \<le> channel_spec v \<and> channel_spec v \<le> Fin 1"
  by (cases v) (auto simp: channel_spec_def jsnum_arith min_def)

lemma isFinite_channel_spec: "isFinite (channel_spec v)"
  by (cases v) (auto simp: channel_spec_def)

text \<open>
  Claim C6.  On an array of at least three elements the resolver gives the three
  normalised channels: each element is coerced to a number; above 1 it is divided by 255
  and capped at 1, negative or not finite it becomes 0, otherwise it is kept.  Every
  channel of the result lies in \<open>[0,1]\<close>, and \<open>[255,0,0]\<close> resolves to \<open>[1,0,0]\<close>.
\<close>

theorem C6_array_channels:
  "(3 \<le> length xs \<longrightarrow>
      parseColorValue (JArr xs) =
        Some (channel_spec (Number (xs ! 0)), channel_spec (Number (xs ! 1)),
              channel_spec (Number (xs ! 2))))
   \<and> Fin 0 \<le> channel_spec v \<and> channel_spec v \<le> Fin 1
   \<and> (1 < r \<longrightarrow> channel_spec (Fin r) = Fin (min (r / 255) 1))
   \<and> (r < 0 \<longrightarrow> channel_spec (Fin r) = Fin 0)
   \<and> (0 \<le> r \<and> r \<le> 1 \<longrightarrow> channel_spec (Fin r) = Fin r)
   \<and> channel_spec PosInf = Fin 0 \<and> channel_spec NegInf = Fin 0 \<and> channel_spec NaN = Fin 0
   \<and> parseColorValue (JArr [JNum (Fin 255), JNum (Fin 0), JNum (Fin 0)])
        = Some (Fin 1, Fin 0, Fin 0)"
proof -
  have a: "parseColorValue (JArr ys) =
        Some (channel_spec (Number (ys ! 0)), channel_spec (Number (ys ! 1)),
              channel_spec (Number (ys ! 2)))" if "3 \<le> length ys" for ys
  proof -
    from that have "0 < length ys" "1 < length ys" "2 < length ys" by linarith+
    then show ?thesis
      by (simp add: parseColorValue_def parseColorArray_def normalizeColorChannel_spec
          isFinite_channel_spec elem_def Let_def)
  qed
  have b: "parseColorValue (JArr [JNum (Fin 255), JNum (Fin 0), JNum (Fin 0)])
        = Some (Fin 1, Fin 0, Fin 0)"
    by (simp add: a channel_spec_def)
  show ?thesis
    using a[of xs] b channel_spec_unit[of v]
    by (simp add: channel_spec_def)
qed

theorem C6_array_channels_witness:
  "3 \<le> length [JStr ''510'', JNum (Fin (1/2)), JNum (Fin (-3)), JNull]
   \<and> parseColorValue (JArr [JStr ''510'', JNum (Fin (1/2)), JNum (Fin (-3)), JNull])
        = Some (Fin 1, Fin (1/2), Fin 0)
   \<and> parseColorValue (JArr [JNum (Fin 51), JNum NaN, JNum PosInf])
        = Some (Fin (1/5), Fin 0, Fin 0)"
proof -
  have n: "StringToNumber ''510'' = Fin 510"
    by (simp add: StringToNumber_def trim_def isWhiteSpace_def codeUnit_def prefixedInteger_def
        unsignedDecimal_def isDigit_def exponentPart_def radixValue_def digitValue_def Let_def)
  show ?thesis
    using C6_array_channels[where xs = "[JStr ''510'', JNum (Fin (1/2)), JNum (Fin (-3)), JNull]"]
      C6_array_channels[where xs = "[JNum (Fin 51), JNum NaN, JNum PosInf]"]
    by (simp add: n channel_spec_def)
qed

lemma length_toLowerCase: "length (toLowerCase s) = length s"
  by (simp add: toLowerCase_def)

lemma parseHexColor_wrong_length:
  "length v - 1 \<notin> {3, 6, 8} \<Longrightarrow> parseHexColor v = None"
  by (simp add: parseHexColor_def Let_def)

text \<open>A hex string whose digit part has a length other than 3, 6 or 8 resolves to
  nothing.\<close>

lemma parseColorValue_hex_wrong_length:
  assumes "startsWith (trim s) ''#''" "length (trim s) - 1 \<notin> {3, 6, 8}"
  shows "parseColorValue (JStr s) = None"
proof -
  from assms(1) have ne: "trim s \<noteq> []" by (auto simp: startsWith_def)
  from assms(2) have "parseHexColor (toLowerCase (trim s)) = None"
    by (intro parseHexColor_wrong_length) (simp add: length_toLowerCase)
  with ne assms(1) show ?thesis
    by (simp add: parseColorValue_def parseColorArray_def Let_def)
qed

lemmas hex_eval = parseColorValue_def parseColorArray_def trim_def isWhiteSpace_def codeUnit_def
  startsWith_def toLowerCase_def lowerChar_def parseHexColor_def slice_def parseInt16_def
  trimStart_def isRadixDigit_def digitValue_def radixValue_def normalizeColorChannel_def
  Math_min_def jsnum_arith Let_def

text \<open>
  Claim C7.  A hex string with a character that is no hex digit in one of its first three
  channels should resolve to nothing.  \<open>parseInt\<close> reads the longest prefix of digits, so
  a two-character channel whose first character is a digit is accepted: \<open>#fg0000\<close>
  resolves to the colour with red \<open>15/255\<close>.
\<close>

theorem C7_hex_digit_prefix_accepted:
  "parseColorValue (JStr ''#fg0000'') = Some (Fin (15 / 255), Fin 0, Fin 0)"
  by (simp add: hex_eval)

text \<open>The three-digit form doubles each digit, the alpha digits are ignored, and a
  three-digit form with a character that is no hex digit resolves to nothing.\<close>

lemma parseColorValue_hex_examples:
  "parseColorValue (JStr ''#f80'') = parseColorValue (JStr ''#ff8800'')"
  "parseColorValue (JStr ''#ff8800'') = Some (Fin 1, Fin (136 / 255), Fin 0)"
  "parseColorValue (JStr ''#ff8800zz'') = parseColorValue (JStr ''#ff8800'')"
  "parseColorValue (JStr ''#fg0'') = None"
  "parseColorValue (JStr ''#ff00'') = None"
  by (simp_all add: hex_eval)

section \<open>Transforms\<close>

text \<open>
  The product \<open>M \<cdot> [x, y, z, 1]\<close> for a matrix stored column by column: the entry in row
  \<open>r\<close> and column \<open>c\<close> of a 4\<times>4 matrix is element \<open>4 c + r\<close> of the list.
\<close>

definition mat_entry :: "jsnum list \<Rightarrow> nat \<Rightarrow> nat \<Rightarrow> jsnum" where
  "mat_entry m r c = m ! (4 * c + r)"

definition mat_vec :: "jsnum list \<Rightarrow> nat \<Rightarrow> Vec3 \<Rightarrow> jsnum" where
  "mat_vec m r v =
     (case v of (x, y, z) \<Rightarrow>
        mat_entry m r 0 * x + mat_entry m r 1 * y + mat_entry m r 2 * z + mat_entry m r 3 * Fin 1)"

definition identity16 :: "jsnum list" where
  "identity16 = map Fin [1, 0, 0, 0,  0, 1, 0, 0,  0, 0, 1, 0,  0, 0, 0, 1]"

lemma num_mul_one: "num_mul a (Fin 1) = a"
  by (cases a) (simp_all add: signed_inf_def)

lemma truthy_num_iff: "truthy_num w \<longleftrightarrow> w \<noteq> Fin 0 \<and> w \<noteq> NaN"
  by (cases w) simp_all

text \<open>
  Claim C8, as stated, at the identity matrix and the point \<open>(Infinity, 0, 0)\<close>: the
  homogeneous coordinate is \<open>NaN\<close> (from \<open>0 * Infinity\<close>), neither 0 nor 1, and the point
  is returned without division.
\<close>

theorem C8_not_divided_at_NaN:
  "length identity16 = 16
   \<and> mat_vec identity16 3 (PosInf, Fin 0, Fin 0) = NaN
   \<and> mat_vec identity16 3 (PosInf, Fin 0, Fin 0) \<noteq> Fin 0
   \<and> mat_vec identity16 3 (PosInf, Fin 0, Fin 0) \<noteq> Fin 1
   \<and> applyTransform (PosInf, Fin 0, Fin 0) (Some identity16) = (PosInf, NaN, NaN)
   \<and> applyTransform (PosInf, Fin 0, Fin 0) (Some identity16) \<noteq>
       (mat_vec identity16 0 (PosInf, Fin 0, Fin 0) / mat_vec identity16 3 (PosInf, Fin 0, Fin 0),
        mat_vec identity16 1 (PosInf, Fin 0, Fin 0) / mat_vec identity16 3 (PosInf, Fin 0, Fin 0),
        mat_vec identity16 2 (PosInf, Fin 0, Fin 0) / mat_vec identity16 3 (PosInf, Fin 0, Fin 0))"
  by (simp add: identity16_def mat_vec_def mat_entry_def applyTransform_def jsnum_arith)

text \<open>
  Claim C8, amended.  With a list of exactly 16 entries the transformed point is
  \<open>M \<cdot> [x, y, z, 1]\<close>, column-major, divided by the homogeneous coordinate \<open>w\<close> exactly
  when \<open>w\<close> is none of 0, 1 and \<open>NaN\<close>; with no list, or one of another length, the point
  is returned as it is.
\<close>

theorem C8_transform:
  "(length m = 16 \<longrightarrow>
      applyTransform v (Some m) =
        (let w = mat_vec m 3 v
         in if w \<noteq> Fin 0 \<and> w \<noteq> Fin 1 \<and> w \<noteq> NaN
            then (mat_vec m 0 v / w, mat_vec m 1 v / w, mat_vec m 2 v / w)
            else (mat_vec m 0 v, mat_vec m 1 v, mat_vec m 2 v)))
   \<and> (length m \<noteq> 16 \<longrightarrow> applyTransform v (Some m) = v)
   \<and> applyTransform v None = v"
proof -
  obtain x y z where v: "v = (x, y, z)" by (cases v) auto
  have one: "\<And>a. a * Fin 1 = (a::jsnum)" by (simp add: times_jsnum_def num_mul_one)
  show ?thesis
    unfolding v
    by (auto simp: applyTransform_def mat_vec_def mat_entry_def Let_def one truthy_num_iff
        numeral_2_eq_2)
qed

theorem C8_transform_witness:
  "length translate_x2 = 16
   \<and> applyTransform (Fin 1, Fin 2, Fin 3) (Some translate_x2) = (Fin 3, Fin 2, Fin 3)
   \<and> length (map Fin [2, 0, 0, 0,  0, 2, 0, 0,  0, 0, 2, 0,  0, 0, 0, 2]) = 16
   \<and> applyTransform (Fin 1, Fin 2, Fin 3)
        (Some (map Fin [2, 0, 0, 0,  0, 2, 0, 0,  0, 0, 2, 0,  0, 0, 0, 2]))
       = (Fin 1, Fin 2, Fin 3)
   \<and> length [Fin 2, Fin 0] \<noteq> 16
   \<and> applyTransform (Fin 1, Fin 2, Fin 3) (Some [Fin 2, Fin 0]) = (Fin 1, Fin 2, Fin 3)"
proof -
  have a: "length translate_x2 = 16" by (simp add: translate_x2_def)
  have b: "length (map Fin [2, 0, 0, 0,  0, 2, 0, 0,  0, 0, 2, 0,  0, 0, 0, 2]) = 16" by simp
  from C8_transform[where m = translate_x2 and v = "(Fin 1, Fin 2, Fin 3)"] a
  have 1: "applyTransform (Fin 1, Fin 2, Fin 3) (Some translate_x2) = (Fin 3, Fin 2, Fin 3)"
    by (simp add: mat_vec_def mat_entry_def translate_x2_def jsnum_arith)
  from C8_transform[where m = "map Fin [2, 0, 0, 0,  0, 2, 0, 0,  0, 0, 2, 0,  0, 0, 0, 2]"
      and v = "(Fin 1, Fin 2, Fin 3)"]
  have 2: "applyTransform (Fin 1, Fin 2, Fin 3)
        (Some (map Fin [2, 0, 0, 0,  0, 2, 0, 0,  0, 0, 2, 0,  0, 0, 0, 2]))
       = (Fin 1, Fin 2, Fin 3)"
    by (simp add: mat_vec_def mat_entry_def jsnum_arith)
  from C8_transform[where m = "[Fin 2, Fin 0]" and v = "(Fin 1, Fin 2, Fin 3)"]
  have 3: "applyTransform (Fin 1, Fin 2, Fin 3) (Some [Fin 2, Fin 0]) = (Fin 1, Fin 2, Fin 3)"
    by simp
  from a 1 2 3 show ?thesis by simp
qed

section \<open>Unsupported geometry\<close>

definition lacks_geometry :: "CsgLike \<Rightarrow> bool" where
  "lacks_geometry csg \<longleftrightarrow> polygons csg = None \<and> sides csg = None"

lemma collectChildren_unsupported:
  assumes "i < length children" "children ! i = Geom csg" "lacks_geometry csg"
  shows "(\<exists>e. collectChildren fround children nm k = Inl e)
     \<and> ((\<forall>j < i. \<exists>gs. collectGeometries fround (children ! j) (nm @ ''_'' @ digits_of (k + j))
            = Inr gs)
          \<longrightarrow> collectChildren fround children nm k = Inl UnsupportedGeometry)"
  using assms
proof (induction children arbitrary: i k)
  case Nil
  then show ?case by simp
next
  case (Cons child rest)
  show ?case
  proof (cases i)
    case 0
    with Cons.prems show ?thesis by (simp add: lacks_geometry_def)
  next
    case (Suc i')
    with Cons.prems have p: "i' < length rest" "rest ! i' = Geom csg" by simp_all
    note ih = Cons.IH[OF p Cons.prems(3), of "k + 1"]
    show ?thesis
    proof (cases "collectGeometries fround child (nm @ ''_'' @ digits_of k)")
      case (Inl e)
      have "\<not> (\<forall>j < i. \<exists>gs. collectGeometries fround ((child # rest) ! j)
                (nm @ ''_'' @ digits_of (k + j)) = Inr gs)"
      proof
        assume "\<forall>j < i. \<exists>gs. collectGeometries fround ((child # rest) ! j)
                (nm @ ''_'' @ digits_of (k + j)) = Inr gs"
        with Suc have "\<exists>gs. collectGeometries fround ((child # rest) ! 0)
                (nm @ ''_'' @ digits_of (k + 0)) = Inr gs"
          by blast
        with Inl show False by simp
      qed
      moreover from Inl have "collectChildren fround (child # rest) nm k = Inl e" by simp
      ultimately show ?thesis by blast
    next
      case (Inr gs)
      have "(\<forall>j < i. \<exists>gs. collectGeometries fround ((child # rest) ! j)
                (nm @ ''_'' @ digits_of (k + j)) = Inr gs)
          \<Longrightarrow> (\<forall>j < i'. \<exists>gs. collectGeometries fround (rest ! j)
                (nm @ ''_'' @ digits_of (k + 1 + j)) = Inr gs)"
      proof (intro allI impI)
        fix j
        assume a: "\<forall>j < i. \<exists>gs. collectGeometries fround ((child # rest) ! j)
                (nm @ ''_'' @ digits_of (k + j)) = Inr gs" and j: "j < i'"
        from j Suc have "Suc j < i" by simp
        with a have "\<exists>gs. collectGeometries fround ((child # rest) ! Suc j)
                (nm @ ''_'' @ digits_of (k + Suc j)) = Inr gs" by blast
        then show "\<exists>gs. collectGeometries fround (rest ! j)
                (nm @ ''_'' @ digits_of (k + 1 + j)) = Inr gs" by simp
      qed
      with ih Inr show ?thesis by (auto split: sum.splits)
    qed
  qed
qed

lemma collectChildren_first_failure:
  assumes "j < length children"
    and "collectGeometries fround (children ! j) (nm @ ''_'' @ digits_of (k + j)) = Inl e"
    and "\<forall>i < j. \<exists>gs. collectGeometries fround (children ! i) (nm @ ''_'' @ digits_of (k + i))
           = Inr gs"
  shows "collectChildren fround children nm k = Inl e"
  using assms
proof (induction children arbitrary: j k)
  case Nil
  then show ?case by simp
next
  case (Cons child rest)
  show ?case
  proof (cases j)
    case 0
    with Cons.prems(2) show ?thesis by simp
  next
    case (Suc j')
    with Cons.prems(1) have len: "j' < length rest" by simp
    from Cons.prems(2) Suc
    have fail: "collectGeometries fround (rest ! j') (nm @ ''_'' @ digits_of (k + 1 + j')) = Inl e"
      by simp
    have before: "\<forall>i < j'. \<exists>gs. collectGeometries fround (rest ! i)
        (nm @ ''_'' @ digits_of (k + 1 + i)) = Inr gs"
    proof (intro allI impI)
      fix i
      assume "i < j'"
      with Suc have "Suc i < j" by simp
      with Cons.prems(3)
      have "\<exists>gs. collectGeometries fround ((child # rest) ! Suc i)
                (nm @ ''_'' @ digits_of (k + Suc i)) = Inr gs"
        by blast
      then show "\<exists>gs. collectGeometries fround (rest ! i)
                (nm @ ''_'' @ digits_of (k + 1 + i)) = Inr gs"
        by simp
    qed
    from Suc Cons.prems(3)
    have "\<exists>gs. collectGeometries fround ((child # rest) ! 0) (nm @ ''_'' @ digits_of (k + 0))
            = Inr gs"
      by blast
    then obtain gs where head: "collectGeometries fround child (nm @ ''_'' @ digits_of k) = Inr gs"
      by auto
    from Cons.IH[OF len fail before] head show ?thesis by simp
  qed
qed

text \<open>
  Claim C9, as stated, at a list whose first element has an empty polygon list and whose
  second element has neither polygons nor sides: the failure raised is the one of the
  first element.
\<close>

theorem C9_earlier_failure_wins:
  "collectGeometries (\<lambda>x. 0)
     (Group [Geom \<lparr>polygons = Some [], sides = None, color = JUndefined, transforms = None\<rparr>,
             Geom \<lparr>polygons = None, sides = None, color = JUndefined, transforms = None\<rparr>])
     ''m''
   = Inl ExpectedPolygonData"
  by (simp add: convertPolygonGeometry_def)

text \<open>
  Claim C9, amended.  A geometry value with neither a polygon list nor a side list makes
  the triangulator fail with the unsupported-geometry failure, which is none of the other
  failures; as an element of a list it makes the call fail, with the unsupported-geometry
  failure when every element before it converts.  In general the failure of a call on a
  list is the failure of its first element that fails: the one at index \<open>f\<close> when every
  element before \<open>f\<close> converts.  When polygons are present, even empty, the polygon
  conversion decides; when only sides are, the side conversion.
\<close>

theorem C9_unsupported_geometry:
  "(lacks_geometry csg \<longrightarrow> collectGeometries fround (Geom csg) nm = Inl UnsupportedGeometry)
   \<and> (lacks_geometry csg \<and> i < length children \<and> children ! i = Geom csg \<longrightarrow>
        (\<exists>e. collectGeometries fround (Group children) nm = Inl e)
        \<and> ((\<forall>j < i. \<exists>gs. collectGeometries fround (children ! j) (nm @ ''_'' @ digits_of j)
               = Inr gs)
             \<longrightarrow> collectGeometries fround (Group children) nm = Inl UnsupportedGeometry))
   \<and> (f < length children
        \<and> collectGeometries fround (children ! f) (nm @ ''_'' @ digits_of f) = Inl err
        \<and> (\<forall>j < f. \<exists>gs. collectGeometries fround (children ! j) (nm @ ''_'' @ digits_of j)
               = Inr gs)
        \<longrightarrow> collectGeometries fround (Group children) nm = Inl err)
   \<and> (polygons csg = Some ps \<longrightarrow>
        collectGeometries fround (Geom csg) nm =
          map_sum id (\<lambda>g. [g]) (convertPolygonGeometry fround csg nm))
   \<and> (polygons csg = None \<and> sides csg = Some ss \<longrightarrow>
        collectGeometries fround (Geom csg) nm =
          map_sum id (\<lambda>g. [g]) (convertSideGeometry fround csg nm))
   \<and> UnsupportedGeometry \<notin> {ExpectedPolygonData, UnableToBuildTriangleMesh, ExpectedSideData,
        UnableToBuildLineGeometry, NoGeometry}
   \<and> message UnsupportedGeometry \<notin> message ` {ExpectedPolygonData, UnableToBuildTriangleMesh,
        ExpectedSideData, UnableToBuildLineGeometry, NoGeometry}"
proof (intro conjI impI)
  assume "lacks_geometry csg"
  then show "collectGeometries fround (Geom csg) nm = Inl UnsupportedGeometry"
    by (simp add: lacks_geometry_def)
next
  assume a: "lacks_geometry csg \<and> i < length children \<and> children ! i = Geom csg"
  then have "i < length children" "children ! i = Geom csg" "lacks_geometry csg" by simp_all
  from collectChildren_unsupported[OF this, of fround nm 0]
  show "\<exists>e. collectGeometries fround (Group children) nm = Inl e"
    and "(\<forall>j < i. \<exists>gs. collectGeometries fround (children ! j) (nm @ ''_'' @ digits_of j)
               = Inr gs)
         \<Longrightarrow> collectGeometries fround (Group children) nm = Inl UnsupportedGeometry"
    by simp_all
next
  assume a: "f < length children
        \<and> collectGeometries fround (children ! f) (nm @ ''_'' @ digits_of f) = Inl err
        \<and> (\<forall>j < f. \<exists>gs. collectGeometries fround (children ! j) (nm @ ''_'' @ digits_of j)
               = Inr gs)"
  from a have 1: "f < length children" by simp
  from a have 2: "collectGeometries fround (children ! f) (nm @ ''_'' @ digits_of (0 + f))
      = Inl err"
    by simp
  from a have 3: "\<forall>j < f. \<exists>gs. collectGeometries fround (children ! j)
      (nm @ ''_'' @ digits_of (0 + j)) = Inr gs"
    by simp
  from collectChildren_first_failure[OF 1 2 3]
  show "collectGeometries fround (Group children) nm = Inl err"
    by simp
next
  assume "polygons csg = Some ps"
  then show "collectGeometries fround (Geom csg) nm =
          map_sum id (\<lambda>g. [g]) (convertPolygonGeometry fround csg nm)"
    by (simp split: sum.splits)
next
  assume "polygons csg = None \<and> sides csg = Some ss"
  then show "collectGeometries fround (Geom csg) nm =
          map_sum id (\<lambda>g. [g]) (convertSideGeometry fround csg nm)"
    by (simp split: sum.splits)
next
  show "UnsupportedGeometry \<notin> {ExpectedPolygonData, UnableToBuildTriangleMesh, ExpectedSideData,
        UnableToBuildLineGeometry, NoGeometry}"
    by simp
next
  show "message UnsupportedGeometry \<notin> message ` {ExpectedPolygonData, UnableToBuildTriangleMesh,
        ExpectedSideData, UnableToBuildLineGeometry, NoGeometry}"
    by simp
qed


definition nothing_example :: CsgLike where
  "nothing_example = \<lparr>polygons = None, sides = None, color = JUndefined, transforms = None\<rparr>"

definition no_polygons_example :: CsgLike where
  "no_polygons_example =
     \<lparr>polygons = Some [], sides = Some [JArr [pt2 0 0, pt2 1 1]], color = JUndefined,
      transforms = None\<rparr>"

theorem C9_unsupported_geometry_witness:
  "\<forall>fround.
     lacks_geometry nothing_example
     \<and> collectGeometries fround (Geom nothing_example) ''m'' = Inl UnsupportedGeometry
     \<and> 1 < length [Geom line_example, Geom nothing_example]
     \<and> [Geom line_example, Geom nothing_example] ! 1 = Geom nothing_example
     \<and> collectGeometries fround (Group [Geom line_example, Geom nothing_example]) ''m''
         = Inl UnsupportedGeometry
     \<and> collectGeometries fround
           ([Geom line_example, Geom no_polygons_example, Geom nothing_example] ! 1) ''m_1''
         = Inl ExpectedPolygonData
     \<and> collectGeometries fround
           ([Geom line_example, Geom no_polygons_example, Geom nothing_example] ! 2) ''m_2''
         = Inl UnsupportedGeometry
     \<and> collectGeometries fround
           (Group [Geom line_example, Geom no_polygons_example, Geom nothing_example]) ''m''
         = Inl ExpectedPolygonData
     \<and> polygons no_polygons_example = Some []
     \<and> collectGeometries fround (Geom no_polygons_example) ''m'' = Inl ExpectedPolygonData
     \<and> polygons line_example = None
     \<and> collectGeometries fround (Geom line_example) ''m'' =
         Inr [\<lparr>name = ''m'', positions = map fround (map Fin [1, 0, 0, 3, 5, 0]),
               normals = None, colors = Some (map fround (map Fin [1, 1, 1, 1, 1, 1])),
               mode = GLTF_MODE_LINES\<rparr>]"
proof
  fix fround
  have l: "lacks_geometry nothing_example"
    by (simp add: lacks_geometry_def nothing_example_def)
  have pl: "polygons line_example = None" "sides line_example =
      Some [JArr [pt2 1 0, pt2 1 1, pt2 0 1, pt2 3 5]]"
    by (simp_all add: line_example_def)
  have pn: "polygons no_polygons_example = Some []"
    by (simp add: no_polygons_example_def)
  have pe: "polygons nothing_example = None" "sides nothing_example = None"
    by (simp_all add: nothing_example_def)
  have first: "\<forall>j < 1. \<exists>gs. collectGeometries fround ([Geom line_example, Geom nothing_example] ! j)
      (''m'' @ ''_'' @ digits_of j) = Inr gs"
    by (simp add: pl convertSideGeometry_line_example)
  from C9_unsupported_geometry[where csg = nothing_example and fround = fround and nm = "''m''"
      and i = 1 and children = "[Geom line_example, Geom nothing_example]"] l first
  have 1: "collectGeometries fround (Geom nothing_example) ''m'' = Inl UnsupportedGeometry"
    and 2: "collectGeometries fround (Group [Geom line_example, Geom nothing_example]) ''m''
         = Inl UnsupportedGeometry"
    by simp_all
  from C9_unsupported_geometry[where csg = no_polygons_example and fround = fround
      and nm = "''m''" and ps = "[]"] pn
  have 3: "collectGeometries fround (Geom no_polygons_example) ''m'' = Inl ExpectedPolygonData"
    by (simp add: convertPolygonGeometry_def)
  from C9_unsupported_geometry[where csg = line_example and fround = fround
      and nm = "''m''" and ss = "[JArr [pt2 1 0, pt2 1 1, pt2 0 1, pt2 3 5]]"] pl
  have 4: "collectGeometries fround (Geom line_example) ''m'' =
         Inr [\<lparr>name = ''m'', positions = map fround (map Fin [1, 0, 0, 3, 5, 0]),
               normals = None, colors = Some (map fround (map Fin [1, 1, 1, 1, 1, 1])),
               mode = GLTF_MODE_LINES\<rparr>]"
    by (simp add: convertSideGeometry_line_example)
  have d1: "digits_of 1 = ''1''" "digits_of 0 = ''0''"
    by (simp_all add: digits_of_small)
  have 5: "collectGeometries fround
           ([Geom line_example, Geom no_polygons_example, Geom nothing_example] ! 1) ''m_1''
         = Inl ExpectedPolygonData"
    by (simp add: pn convertPolygonGeometry_def)
  have 6: "collectGeometries fround
           ([Geom line_example, Geom no_polygons_example, Geom nothing_example] ! 2) ''m_2''
         = Inl UnsupportedGeometry"
    by (simp add: pe)
  have before: "\<forall>j < 1. \<exists>gs. collectGeometries fround
      ([Geom line_example, Geom no_polygons_example, Geom nothing_example] ! j)
      (''m'' @ ''_'' @ digits_of j) = Inr gs"
    by (simp add: pl convertSideGeometry_line_example)
  have len: "1 < length [Geom line_example, Geom no_polygons_example, Geom nothing_example]"
    by simp
  have fails: "collectGeometries fround
      ([Geom line_example, Geom no_polygons_example, Geom nothing_example] ! 1)
      (''m'' @ ''_'' @ digits_of 1) = Inl ExpectedPolygonData"
    by (simp add: digits_of_small pn convertPolygonGeometry_def)
  from C9_unsupported_geometry[where fround = fround and nm = "''m''" and f = 1 and err = ExpectedPolygonData
      and children = "[Geom line_example, Geom no_polygons_example, Geom nothing_example]"]
  have "1 < length [Geom line_example, Geom no_polygons_example, Geom nothing_example]
        \<and> collectGeometries fround
             ([Geom line_example, Geom no_polygons_example, Geom nothing_example] ! 1)
             (''m'' @ ''_'' @ digits_of 1) = Inl ExpectedPolygonData
        \<and> (\<forall>j < 1. \<exists>gs. collectGeometries fround
               ([Geom line_example, Geom no_polygons_example, Geom nothing_example] ! j)
               (''m'' @ ''_'' @ digits_of j) = Inr gs)
        \<longrightarrow> collectGeometries fround
              (Group [Geom line_example, Geom no_polygons_example, Geom nothing_example]) ''m''
            = Inl ExpectedPolygonData"
    by blast
  with len fails before
  have 7: "collectGeometries fround
           (Group [Geom line_example, Geom no_polygons_example, Geom nothing_example]) ''m''
         = Inl ExpectedPolygonData"
    by blast
  from l 1 2 3 4 5 6 7 pn pl
  show "lacks_geometry nothing_example
     \<and> collectGeometries fround (Geom nothing_example) ''m'' = Inl UnsupportedGeometry
     \<and> 1 < length [Geom line_example, Geom nothing_example]
     \<and> [Geom line_example, Geom nothing_example] ! 1 = Geom nothing_example
     \<and> collectGeometries fround (Group [Geom line_example, Geom nothing_example]) ''m''
         = Inl UnsupportedGeometry
     \<and> collectGeometries fround
           ([Geom line_example, Geom no_polygons_example, Geom nothing_example] ! 1) ''m_1''
         = Inl ExpectedPolygonData
     \<and> collectGeometries fround
           ([Geom line_example, Geom no_polygons_example, Geom nothing_example] ! 2) ''m_2''
         = Inl UnsupportedGeometry
     \<and> collectGeometries fround
           (Group [Geom line_example, Geom no_polygons_example, Geom nothing_example]) ''m''
         = Inl ExpectedPolygonData
     \<and> polygons no_polygons_example = Some []
     \<and> collectGeometries fround (Geom no_polygons_example) ''m'' = Inl ExpectedPolygonData
     \<and> polygons line_example = None
     \<and> collectGeometries fround (Geom line_example) ''m'' =
         Inr [\<lparr>name = ''m'', positions = map fround (map Fin [1, 0, 0, 3, 5, 0]),
               normals = None, colors = Some (map fround (map Fin [1, 1, 1, 1, 1, 1])),
               mode = GLTF_MODE_LINES\<rparr>]"
    by simp
qed

section \<open>Vertex colours\<close>

text \<open>A vertex with a position and a colour of its own, given as 8-bit channels.\<close>

definition red_vertex :: jsval where
  "red_vertex = JObj [(''pos'', pt 0 0 0),
                      (''color'', JArr [JNum (Fin 255), JNum (Fin 0), JNum (Fin 0)])]"

text \<open>
  Claim C5, as stated, at that vertex: the colour emitted is the raw \<open>[255,0,0]\<close>, and
  the resolver's result on the same field is \<open>[1,0,0]\<close>.
\<close>

theorem C5_vertex_color_not_resolved:
  "extractVertexColor red_vertex white = (Fin 255, Fin 0, Fin 0)
   \<and> parseColorValue (getProp red_vertex ''color'') = Some (Fin 1, Fin 0, Fin 0)
   \<and> Some (extractVertexColor red_vertex white) \<noteq> parseColorValue (getProp red_vertex ''color'')"
  by (simp add: red_vertex_def extractVertexColor_def toColorTuple_def elem_def white_def
      parseColorValue_def parseColorArray_def normalizeColorChannel_def Math_min_def
      jsnum_arith Let_def)

text \<open>
  Claim C5, amended.  The colour stream of a polygon geometry holds, for each vertex of
  each fan triangle, the vertex's own colour or the shape-level default.  A vertex whose
  colour field is an array of at least three elements gets each channel coerced to a
  number and kept as it is when finite (not divided by 255, not clamped), and the
  default's channel otherwise; a vertex whose colour field is absent, falsy or no such
  array gets the default.
\<close>

theorem C5_vertex_color:
  "(polygons csg = Some ps \<and> convertPolygonGeometry fround csg nm = Inr g \<longrightarrow>
      colors g = Some (map fround (concat (map (poly_colors (shapeColor csg)) ps))))
   \<and> (3 \<le> length vs \<longrightarrow>
        poly_colors dc vs =
          concat (map (\<lambda>(i, j, k). spread (extractVertexColor (vs ! i) dc)
                                  @ spread (extractVertexColor (vs ! j) dc)
                                  @ spread (extractVertexColor (vs ! k) dc))
                    (fan_triangles (length vs))))
   \<and> (getProp vertex ''color'' = JArr xs \<and> 3 \<le> length xs \<longrightarrow>
        extractVertexColor vertex (d0, d1, d2) =
          (if isFinite (Number (xs ! 0)) then Number (xs ! 0) else d0,
           if isFinite (Number (xs ! 1)) then Number (xs ! 1) else d1,
           if isFinite (Number (xs ! 2)) then Number (xs ! 2) else d2))
   \<and> (\<not> truthy (getProp vertex ''color'') \<or> \<not> isArrayOf3 (getProp vertex ''color'') \<longrightarrow>
        extractVertexColor vertex dc = dc)"
proof (intro conjI impI)
  assume a: "polygons csg = Some ps \<and> convertPolygonGeometry fround csg nm = Inr g"
  then have "convertPolygonGeometry fround csg nm = Inr g" by simp
  then obtain ps' where "polygons csg = Some ps'"
    "g = \<lparr>name = nm,
          positions = map fround (concat (map (poly_positions csg) ps')),
          normals = Some (map fround (concat (map (poly_normals csg) ps'))),
          colors = Some (map fround (concat (map (poly_colors (shapeColor csg)) ps'))),
          mode = GLTF_MODE_TRIANGLES\<rparr>"
    by (rule convertPolygonGeometry_Inr)
  with a show "colors g = Some (map fround (concat (map (poly_colors (shapeColor csg)) ps)))"
    by simp
next
  assume "3 \<le> length vs"
  then show "poly_colors dc vs =
          concat (map (\<lambda>(i, j, k). spread (extractVertexColor (vs ! i) dc)
                                  @ spread (extractVertexColor (vs ! j) dc)
                                  @ spread (extractVertexColor (vs ! k) dc))
                    (fan_triangles (length vs)))"
    by (simp add: poly_colors_def fan_colors_def)
next
  assume a: "getProp vertex ''color'' = JArr xs \<and> 3 \<le> length xs"
  then have "0 < length xs" "1 < length xs" "2 < length xs" by linarith+
  with a show "extractVertexColor vertex (d0, d1, d2) =
          (if isFinite (Number (xs ! 0)) then Number (xs ! 0) else d0,
           if isFinite (Number (xs ! 1)) then Number (xs ! 1) else d1,
           if isFinite (Number (xs ! 2)) then Number (xs ! 2) else d2)"
    by (simp add: extractVertexColor_def toColorTuple_def elem_def Let_def)
next
  assume "\<not> truthy (getProp vertex ''color'') \<or> \<not> isArrayOf3 (getProp vertex ''color'')"
  then show "extractVertexColor vertex dc = dc"
    by (auto simp: extractVertexColor_def toColorTuple_def isArrayOf3_def split: jsval.splits)
qed


text \<open>
  A grey triangle whose first vertex is the red vertex above, whose second has no colour
  and whose third has a colour with two channels that are not finite.
\<close>

definition odd_vertex :: jsval where
  "odd_vertex = JObj [(''pos'', pt 0 1 0),
                      (''color'', JArr [JNum (Fin (1/4)), JNum NaN, JNum PosInf])]"

definition colored_example :: CsgLike where
  "colored_example =
     \<lparr>polygons = Some [[red_vertex, pt 1 0 0, odd_vertex]], sides = None,
      color = JArr [JNum (Fin (1/2)), JNum (Fin (1/2)), JNum (Fin (1/2))],
      transforms = None\<rparr>"

lemma shapeColor_colored_example:
  "shapeColor colored_example = (Fin (1/2), Fin (1/2), Fin (1/2))"
  by (simp add: shapeColor_def colored_example_def toColorTuple_def elem_def Let_def)

lemma fan_triangles_3: "fan_triangles (Suc (Suc (Suc 0))) = [(0, 1, 2)]"
  by (simp add: fan_triangles_def upt_rec)

lemma poly_positions_colored_example:
  "poly_positions colored_example [red_vertex, pt 1 0 0, odd_vertex] =
     map Fin [0, 0, 0, 1, 0, 0, 0, 1, 0]"
  by (simp add: poly_positions_def fan_positions_def fan_triangles_3 transformed_def
      colored_example_def red_vertex_def odd_vertex_def extractVertexPosition_def
      extractVertexPosition_pt isArrayOf3_def coords_def arrayOf_def elem_def or_zero_def
      applyTransform_def pt_def)

theorem C5_vertex_color_witness:
  "\<forall>fround. \<exists>g.
      polygons colored_example = Some [[red_vertex, pt 1 0 0, odd_vertex]]
      \<and> convertPolygonGeometry fround colored_example ''tri'' = Inr g
      \<and> 3 \<le> length [red_vertex, pt 1 0 0, odd_vertex]
      \<and> colors g = Some (map fround
           (map Fin [255, 0, 0,  1/2, 1/2, 1/2,  1/4, 1/2, 1/2]))
      \<and> getProp red_vertex ''color'' = JArr [JNum (Fin 255), JNum (Fin 0), JNum (Fin 0)]
      \<and> extractVertexColor red_vertex (Fin (1/2), Fin (1/2), Fin (1/2))
           = (Fin 255, Fin 0, Fin 0)
      \<and> \<not> truthy (getProp (pt 1 0 0) ''color'')
      \<and> extractVertexColor (pt 1 0 0) (Fin (1/2), Fin (1/2), Fin (1/2))
           = (Fin (1/2), Fin (1/2), Fin (1/2))"
proof
  fix fround
  let ?tri = "[red_vertex, pt 1 0 0, odd_vertex]"
  let ?grey = "(Fin (1/2), Fin (1/2), Fin (1/2))"
  have p: "polygons colored_example = Some [?tri]"
    by (simp add: colored_example_def)
  have ne: "concat (map (poly_positions colored_example) [?tri]) \<noteq> []"
    by (simp add: poly_positions_colored_example)
  from convertPolygonGeometry_total[OF p ne]
  obtain g where g: "convertPolygonGeometry fround colored_example ''tri'' = Inr g" by blast
  have r: "getProp red_vertex ''color'' = JArr [JNum (Fin 255), JNum (Fin 0), JNum (Fin 0)]"
    by (simp add: red_vertex_def)
  have o: "getProp odd_vertex ''color'' = JArr [JNum (Fin (1/4)), JNum NaN, JNum PosInf]"
    by (simp add: odd_vertex_def)
  have n: "\<not> truthy (getProp (pt 1 0 0) ''color'')"
    by (simp add: pt_def)
  from C5_vertex_color[where vertex = red_vertex
      and xs = "[JNum (Fin 255), JNum (Fin 0), JNum (Fin 0)]"
      and ?d0.0 = "Fin (1/2)" and ?d1.0 = "Fin (1/2)" and ?d2.0 = "Fin (1/2)"] r
  have c1: "extractVertexColor red_vertex ?grey = (Fin 255, Fin 0, Fin 0)" by simp
  from C5_vertex_color[where vertex = odd_vertex
      and xs = "[JNum (Fin (1/4)), JNum NaN, JNum PosInf]"
      and ?d0.0 = "Fin (1/2)" and ?d1.0 = "Fin (1/2)" and ?d2.0 = "Fin (1/2)"] o
  have c3: "extractVertexColor odd_vertex ?grey = (Fin (1/4), Fin (1/2), Fin (1/2))" by simp
  from C5_vertex_color[where vertex = "pt 1 0 0" and dc = ?grey] n
  have c2: "extractVertexColor (pt 1 0 0) ?grey = ?grey" by blast
  from C5_vertex_color[where csg = colored_example and ps = "[?tri]" and fround = fround
      and nm = "''tri''" and g = g and vs = ?tri and dc = ?grey] p g
  have "colors g = Some (map fround (concat (map (poly_colors ?grey) [?tri])))"
    and "poly_colors ?grey ?tri =
          concat (map (\<lambda>(i, j, k). spread (extractVertexColor (?tri ! i) ?grey)
                                  @ spread (extractVertexColor (?tri ! j) ?grey)
                                  @ spread (extractVertexColor (?tri ! k) ?grey))
                    (fan_triangles (length ?tri)))"
    by (simp_all add: shapeColor_colored_example)
  then have "colors g = Some (map fround
           (map Fin [255, 0, 0,  1/2, 1/2, 1/2,  1/4, 1/2, 1/2]))"
    by (simp add: fan_triangles_3 c1 c2 c3)
  with p g r n c1 c2
  show "\<exists>g.
      polygons colored_example = Some [?tri]
      \<and> convertPolygonGeometry fround colored_example ''tri'' = Inr g
      \<and> 3 \<le> length ?tri
      \<and> colors g = Some (map fround
           (map Fin [255, 0, 0,  1/2, 1/2, 1/2,  1/4, 1/2, 1/2]))
      \<and> getProp red_vertex ''color'' = JArr [JNum (Fin 255), JNum (Fin 0), JNum (Fin 0)]
      \<and> extractVertexColor red_vertex ?grey = (Fin 255, Fin 0, Fin 0)
      \<and> \<not> truthy (getProp (pt 1 0 0) ''color'')
      \<and> extractVertexColor (pt 1 0 0) ?grey = ?grey"
    by (intro exI[of _ g]) simp
qed

section \<open>JSON text\<close>

text \<open>
  \<open>JSON.stringify\<close> (without indentation) and \<open>JSON.parse\<close>.  The digits of a
  finite number are produced by \<open>Number::toString\<close> and read back by the numeric-literal
  evaluation of the language, which work on binary64; they are the parameters
  \<open>numToString\<close> and \<open>stringToNum\<close> of the two functions.
\<close>

definition hexDigit :: "nat \<Rightarrow> char" where
  "hexDigit d = ''0123456789abcdef'' ! d"

text \<open>\<open>QuoteJSONString\<close>, one code unit at a time.\<close>

definition quoteChar :: "char \<Rightarrow> string" where
  "quoteChar c =
     (let n = codeUnit c
      in if n = 8 then [CHR 0x5C, CHR ''b'']
         else if n = 9 then [CHR 0x5C, CHR ''t'']
         else if n = 10 then [CHR 0x5C, CHR ''n'']
         else if n = 12 then [CHR 0x5C, CHR ''f'']
         else if n = 13 then [CHR 0x5C, CHR ''r'']
         else if n = 34 then [CHR 0x5C, CHR 0x22]
         else if n = 92 then [CHR 0x5C, CHR 0x5C]
         else if n < 32 then [CHR 0x5C, CHR ''u'', CHR ''0'', CHR ''0''] @ [hexDigit (n div 16), hexDigit (n mod 16)]
         else [c])"

definition quoteJSONString :: "string \<Rightarrow> string" where
  "quoteJSONString s = [CHR 0x22] @ concat (map quoteChar s) @ [CHR 0x22]"

fun joinComma :: "string list \<Rightarrow> string" where
  "joinComma [] = []"
| "joinComma [x] = x"
| "joinComma (x # y # ys) = x @ '','' @ joinComma (y # ys)"

text \<open>
  The text of a value that is not \<open>undefined\<close>.  A number that is not finite is
  \<open>null\<close>; an \<open>undefined\<close> element of an array is \<open>null\<close>; a property whose value is
  \<open>undefined\<close> is left out.
\<close>

fun serialize :: "(real \<Rightarrow> string) \<Rightarrow> jsval \<Rightarrow> string" where
  "serialize numToString JUndefined = ''null''"
| "serialize numToString JNull = ''null''"
| "serialize numToString (JBool b) = (if b then ''true'' else ''false'')"
| "serialize numToString (JNum (Fin r)) = numToString r"
| "serialize numToString (JNum _) = ''null''"
| "serialize numToString (JStr s) = quoteJSONString s"
| "serialize numToString (JArr vs) =
     ''['' @ joinComma (map (serialize numToString) vs) @ '']''"
| "serialize numToString (JObj kvs) =
     ''{'' @ joinComma (map (\<lambda>(k, v). quoteJSONString k @ '':'' @ serialize numToString v)
                        (filter (\<lambda>(k, v). v \<noteq> JUndefined) kvs)) @ ''}''"

definition JSON_stringify :: "(real \<Rightarrow> string) \<Rightarrow> jsval \<Rightarrow> string option" where
  "JSON_stringify numToString v =
     (if v = JUndefined then None else Some (serialize numToString v))"


text \<open>
  What \<open>JSON.stringify\<close> keeps of a value: the value that its text denotes.
\<close>

fun keptValue :: "jsval \<Rightarrow> jsval" where
  "keptValue JUndefined = JNull"
| "keptValue JNull = JNull"
| "keptValue (JBool b) = JBool b"
| "keptValue (JNum n) = (if isFinite n then JNum n else JNull)"
| "keptValue (JStr s) = JStr s"
| "keptValue (JArr vs) = JArr (map keptValue vs)"
| "keptValue (JObj kvs) =
     JObj (map (\<lambda>(k, v). (k, keptValue v)) (filter (\<lambda>(k, v). v \<noteq> JUndefined) kvs))"

subsection \<open>Reading JSON text\<close>

definition isJsonSpace :: "char \<Rightarrow> bool" where
  "isJsonSpace c = (codeUnit c \<in> {9, 10, 13, 32})"

definition skipSpace :: "string \<Rightarrow> string" where
  "skipSpace s = dropWhile isJsonSpace s"

definition unescape :: "char \<Rightarrow> char option" where
  "unescape e =
     (if e = CHR 0x22 then Some (CHR 0x22)
      else if e = CHR 0x5C then Some (CHR 0x5C)
      else if e = CHR ''/'' then Some (CHR ''/'')
      else if e = CHR ''b'' then Some (CHR 0x08)
      else if e = CHR ''f'' then Some (CHR 0x0C)
      else if e = CHR ''n'' then Some (CHR 0x0A)
      else if e = CHR ''r'' then Some (CHR 0x0D)
      else if e = CHR ''t'' then Some (CHR 0x09)
      else None)"

text \<open>
  The characters of a string after its opening quote, up to the closing quote.  An
  escape \<open>\uXXXX\<close> of a code unit from 256 on is outside the strings of the model and is
  refused, as is a raw control character.
\<close>

function parseStringBody :: "string \<Rightarrow> (string \<times> string) option" where
  "parseStringBody [] = None"
| "parseStringBody (c # cs) =
     (if c = CHR 0x22 then Some ([], cs)
      else if c = CHR 0x5C then
        (case cs of
           [] \<Rightarrow> None
         | e # r \<Rightarrow>
             if e = CHR ''u'' then
               (if 4 \<le> length r \<and> list_all (isRadixDigit 16) (take 4 r)
                   \<and> radixValue 16 (take 4 r) < 256
                then map_option (\<lambda>(s, t). (char_of (radixValue 16 (take 4 r)) # s, t))
                       (parseStringBody (drop 4 r))
                else None)
             else (case unescape e of
                     None \<Rightarrow> None
                   | Some d \<Rightarrow> map_option (\<lambda>(s, t). (d # s, t)) (parseStringBody r)))
      else if codeUnit c < 32 then None
      else map_option (\<lambda>(s, t). (c # s, t)) (parseStringBody cs))"
  by pat_completeness auto
termination
  by (relation "measure length") auto

definition isNumChar :: "char \<Rightarrow> bool" where
  "isNumChar c = (c \<in> set ''0123456789+-.eE'')"

definition parseNumber :: "(string \<Rightarrow> real option) \<Rightarrow> string \<Rightarrow> (jsval \<times> string) option" where
  "parseNumber stringToNum s =
     (let tok = takeWhile isNumChar s
      in if tok \<noteq> [] \<and> (hd tok = CHR ''-'' \<or> isDigit (hd tok)) then
           (case stringToNum tok of
              None \<Rightarrow> None
            | Some r \<Rightarrow> Some (JNum (Fin r), dropWhile isNumChar s))
         else None)"

text \<open>
  The recursive descent.  The first argument bounds the depth of the descent; the length
  of the text is always enough.
\<close>

fun parseValue :: "(string \<Rightarrow> real option) \<Rightarrow> nat \<Rightarrow> string \<Rightarrow> (jsval \<times> string) option"
  and parseElements ::
    "(string \<Rightarrow> real option) \<Rightarrow> nat \<Rightarrow> string \<Rightarrow> (jsval list \<times> string) option"
  and parseMembers ::
    "(string \<Rightarrow> real option) \<Rightarrow> nat \<Rightarrow> string \<Rightarrow> ((string \<times> jsval) list \<times> string) option"
  where
  "parseValue rd 0 s = None"
| "parseValue rd (Suc f) s =
     (case skipSpace s of
        [] \<Rightarrow> None
      | c # cs \<Rightarrow>
          if c = CHR ''{'' then
            (case skipSpace cs of
               [] \<Rightarrow> None
             | d # ds \<Rightarrow>
                 if d = CHR ''}'' then Some (JObj [], ds)
                 else map_option (\<lambda>(kvs, t). (JObj kvs, t)) (parseMembers rd f cs))
          else if c = CHR ''['' then
            (case skipSpace cs of
               [] \<Rightarrow> None
             | d # ds \<Rightarrow>
                 if d = CHR '']'' then Some (JArr [], ds)
                 else map_option (\<lambda>(vs, t). (JArr vs, t)) (parseElements rd f cs))
          else if c = CHR 0x22 then map_option (\<lambda>(str, t). (JStr str, t)) (parseStringBody cs)
          else if take 4 (c # cs) = ''null'' then Some (JNull, drop 4 (c # cs))
          else if take 4 (c # cs) = ''true'' then Some (JBool True, drop 4 (c # cs))
          else if take 5 (c # cs) = ''false'' then Some (JBool False, drop 5 (c # cs))
          else parseNumber rd (c # cs))"
| "parseElements rd 0 s = None"
| "parseElements rd (Suc f) s =
     (case parseValue rd f s of
        None \<Rightarrow> None
      | Some (v, r) \<Rightarrow>
          (case skipSpace r of
             [] \<Rightarrow> None
           | d # ds \<Rightarrow>
               if d = CHR '','' then
                 map_option (\<lambda>(vs, t). (v # vs, t)) (parseElements rd f ds)
               else if d = CHR '']'' then Some ([v], ds)
               else None))"
| "parseMembers rd 0 s = None"
| "parseMembers rd (Suc f) s =
     (case skipSpace s of
        [] \<Rightarrow> None
      | q # qs \<Rightarrow>
          if q \<noteq> CHR 0x22 then None
          else
            (case parseStringBody qs of
               None \<Rightarrow> None
             | Some (k, r) \<Rightarrow>
                 (case skipSpace r of
                    [] \<Rightarrow> None
                  | c # cs \<Rightarrow>
                      if c \<noteq> CHR '':'' then None
                      else
                        (case parseValue rd f cs of
                           None \<Rightarrow> None
                         | Some (v, r') \<Rightarrow>
                             (case skipSpace r' of
                                [] \<Rightarrow> None
                              | d # ds \<Rightarrow>
                                  if d = CHR '','' then
                                    map_option (\<lambda>(kvs, t). ((k, v) # kvs, t))
                                      (parseMembers rd f ds)
                                  else if d = CHR ''}'' then Some ([(k, v)], ds)
                                  else None)))))"

definition JSON_parse :: "(string \<Rightarrow> real option) \<Rightarrow> string \<Rightarrow> jsval option" where
  "JSON_parse stringToNum s =
     (case parseValue stringToNum (length s) s of
        None \<Rightarrow> None
      | Some (v, r) \<Rightarrow> if skipSpace r = [] then Some v else None)"


section \<open>The binary container\<close>

text \<open>
  \<open>Buffer.from(text, "utf8")\<close> on a string of code units below 256: one byte below 128,
  two bytes from there on.
\<close>

definition utf8_char :: "char \<Rightarrow> byte list" where
  "utf8_char c =
     (let n = codeUnit c
      in if n < 128 then [of_nat n] else [of_nat (192 + n div 64), of_nat (128 + n mod 64)])"

definition utf8_encode :: "string \<Rightarrow> Buffer" where
  "utf8_encode s = concat (map utf8_char s)"

text \<open>
  \<open>buf.writeUInt32LE(value, offset)\<close> raises a \<open>RangeError\<close> on a value that does not
  fit in 32 bits.
\<close>

definition writeUInt32LE :: "nat \<Rightarrow> error + byte list" where
  "writeUInt32LE v = (if v < 2 ^ 32 then Inr (u32le v) else Inl RangeError)"

definition bind_result :: "error + 'a \<Rightarrow> ('a \<Rightarrow> error + 'b) \<Rightarrow> error + 'b" where
  "bind_result r f = (case r of Inl e \<Rightarrow> Inl e | Inr x \<Rightarrow> f x)"

definition buildGlb :: "(real \<Rightarrow> string) \<Rightarrow> jsval \<Rightarrow> Buffer \<Rightarrow> error + byte list" where
  "buildGlb numToString json binary =
     (case JSON_stringify numToString json of
        None \<Rightarrow> Inl TypeError
      | Some jsonString \<Rightarrow>
          (let jsonBuffer = utf8_encode jsonString;
               jsonPadding = align (length jsonBuffer) 4 - length jsonBuffer;
               paddedJson = (if 0 < jsonPadding then jsonBuffer @ replicate jsonPadding 0x20
                             else jsonBuffer);
               binPadding = align (length binary) 4 - length binary;
               paddedBinary = (if 0 < binPadding then binary @ replicate binPadding 0
                               else binary);
               totalLength = 12 + 8 + length paddedJson + 8 + length paddedBinary
           in bind_result (writeUInt32LE 0x46546c67) (\<lambda>magic.
              bind_result (writeUInt32LE 2) (\<lambda>version.
              bind_result (writeUInt32LE totalLength) (\<lambda>totalField.
              bind_result (writeUInt32LE (length paddedJson)) (\<lambda>jsonLength.
              bind_result (writeUInt32LE 0x4e4f534a) (\<lambda>jsonTag.
              bind_result (writeUInt32LE (length paddedBinary)) (\<lambda>binLength.
              bind_result (writeUInt32LE 0x004e4942) (\<lambda>binTag.
                Inr (magic @ version @ totalField @ jsonLength @ jsonTag @ paddedJson
                     @ binLength @ binTag @ paddedBinary))))))))))"

text \<open>
  The object literal \<open>json\<close> of \<open>buildGltfCore\<close>, as a value: its properties in the order
  they are written.
\<close>

definition num :: "nat \<Rightarrow> jsval" where
  "num n = JNum (Fin (real n))"

definition bufferView_value :: "BufferView \<Rightarrow> jsval" where
  "bufferView_value bv =
     JObj [(''buffer'', num (buffer bv)), (''byteOffset'', num (byteOffset bv)),
           (''byteLength'', num (byteLength bv)),
           (''target'', case target bv of None \<Rightarrow> JUndefined | Some t \<Rightarrow> num t)]"

definition accessor_value :: "Accessor \<Rightarrow> jsval" where
  "accessor_value a =
     JObj ([(''bufferView'', num (bufferView a)), (''componentType'', num (componentType a)),
            (''count'', JNum (count a)), (''type'', JStr (type a))]
           @ (case min_bounds a of None \<Rightarrow> [] | Some mn \<Rightarrow> [(''min'', JArr (map JNum mn))])
           @ (case max_bounds a of None \<Rightarrow> [] | Some mx \<Rightarrow> [(''max'', JArr (map JNum mx))]))"

definition mesh_value :: "string \<times> (string \<times> nat) list \<times> nat \<Rightarrow> jsval" where
  "mesh_value m =
     (case m of (nm, attrs, md) \<Rightarrow>
        JObj [(''name'', JStr nm),
              (''primitives'',
               JArr [JObj [(''attributes'', JObj (map (\<lambda>(k, i). (k, num i)) attrs)),
                           (''mode'', num md)]])])"

definition node_value :: "string \<times> nat \<Rightarrow> jsval" where
  "node_value n = (case n of (nm, mesh) \<Rightarrow> JObj [(''name'', JStr nm), (''mesh'', num mesh)])"

definition json_value :: "gltf_json \<Rightarrow> jsval" where
  "json_value j =
     JObj [(''asset'', JObj [(''version'', JStr ''2.0''),
                             (''generator'', JStr ''jscad-plan-to-gltf'')]),
           (''buffers'', JArr [JObj [(''byteLength'', num (buffers_byteLength j))]]),
           (''bufferViews'', JArr (map bufferView_value (json_bufferViews j))),
           (''accessors'', JArr (map accessor_value (json_accessors j))),
           (''meshes'', JArr (map mesh_value (json_meshes j))),
           (''nodes'', JArr (map node_value (json_nodes j))),
           (''scenes'', JArr [JObj [(''name'', JStr ''Scene''),
                                    (''nodes'', JArr (map num (scene_nodes j)))]]),
           (''scene'', num 0)]"

subsection \<open>Reading a container back\<close>

definition read_u32le :: "byte list \<Rightarrow> nat \<Rightarrow> nat" where
  "read_u32le bs off =
     unat (bs ! off) + 256 * unat (bs ! (off + 1)) + 65536 * unat (bs ! (off + 2))
       + 16777216 * unat (bs ! (off + 3))"

text \<open>
  The layout of section 4.4 of the specification, read: the total-length field of the
  header, the bytes of the JSON chunk and the bytes of the BIN chunk; nothing when the
  magic, the version, a chunk tag or a length is off.
\<close>

definition parseGlb :: "byte list \<Rightarrow> (nat \<times> byte list \<times> byte list) option" where
  "parseGlb bs =
     (if length bs < 20 \<or> read_u32le bs 0 \<noteq> 0x46546C67 \<or> read_u32le bs 4 \<noteq> 2
         \<or> read_u32le bs 16 \<noteq> 0x4E4F534A
      then None
      else
        (let totalField = read_u32le bs 8;
             jsonLength = read_u32le bs 12;
             binStart = 20 + jsonLength
         in if length bs < binStart + 8 \<or> read_u32le bs (binStart + 4) \<noteq> 0x004E4942
               \<or> length bs < binStart + 8 + read_u32le bs binStart
            then None
            else Some (totalField, take jsonLength (drop 20 bs),
                       take (read_u32le bs binStart) (drop (binStart + 8) bs))))"

function utf8_decode :: "byte list \<Rightarrow> string option" where
  "utf8_decode [] = Some []"
| "utf8_decode (b # bs) =
     (let n = unat b
      in if n < 128 then map_option (\<lambda>s. char_of n # s) (utf8_decode bs)
         else if n = 194 \<or> n = 195 then
           (case bs of
              [] \<Rightarrow> None
            | b2 # r \<Rightarrow>
                (let m = unat b2
                 in if 128 \<le> m \<and> m < 192
                    then map_option (\<lambda>s. char_of ((n - 192) * 64 + (m - 128)) # s)
                           (utf8_decode r)
                    else None))
         else None)"
  by pat_completeness auto
termination
  by (relation "measure length") auto

definition stripTrailingSpaces :: "string \<Rightarrow> string" where
  "stripTrailingSpaces s = rev (dropWhile (\<lambda>c. c = CHR '' '') (rev s))"

text \<open>The JSON chunk of a container, decoded, stripped of its padding and parsed.\<close>

definition readJsonChunk :: "(string \<Rightarrow> real option) \<Rightarrow> byte list \<Rightarrow> jsval option" where
  "readJsonChunk stringToNum glb =
     (case parseGlb glb of
        None \<Rightarrow> None
      | Some (totalField, jsonChunk, binChunk) \<Rightarrow>
          (case utf8_decode jsonChunk of
             None \<Rightarrow> None
           | Some text \<Rightarrow> JSON_parse stringToNum (stripTrailingSpaces text)))"

definition readBinChunk :: "byte list \<Rightarrow> byte list option" where
  "readBinChunk glb = map_option (\<lambda>(totalField, jsonChunk, binChunk). binChunk) (parseGlb glb)"

definition readTotalLength :: "byte list \<Rightarrow> nat option" where
  "readTotalLength glb = map_option (\<lambda>(totalField, jsonChunk, binChunk). totalField) (parseGlb glb)"

section \<open>Round trip through the binary container\<close>

lemma codeUnit_less_256: "codeUnit c < 256"
  by (simp add: codeUnit_def)

lemma char_of_codeUnit: "char_of (codeUnit c) = c"
  by (simp add: codeUnit_def)

lemma unat_byte_of_nat: "n < 256 \<Longrightarrow> unat (of_nat n :: byte) = n"
  by (simp add: unat_of_nat)

lemma utf8_decode_char:
  "utf8_decode (utf8_char c @ bs) = map_option (\<lambda>s. c # s) (utf8_decode bs)"
proof (cases "codeUnit c < 128")
  case True
  then show ?thesis
    by (simp add: utf8_char_def Let_def unat_byte_of_nat char_of_codeUnit)
next
  case False
  let ?n = "codeUnit c"
  have lt: "?n < 256" by (rule codeUnit_less_256)
  from False lt have d: "?n div 64 = 2 \<or> ?n div 64 = 3" by linarith
  then have b1: "192 + ?n div 64 < 256" by auto
  have b2: "128 + ?n mod 64 < 256" by simp
  have u1: "unat (of_nat (192 + ?n div 64) :: byte) = 192 + ?n div 64"
    using b1 by (rule unat_byte_of_nat)
  have u2: "unat (of_nat (128 + ?n mod 64) :: byte) = 128 + ?n mod 64"
    using b2 by (rule unat_byte_of_nat)
  have r: "?n div 64 * 64 + ?n mod 64 = ?n" by simp
  have m: "\<not> 192 + ?n div 64 < 128" "192 + ?n div 64 = 194 \<or> 192 + ?n div 64 = 195"
    "128 \<le> 128 + ?n mod 64" "128 + ?n mod 64 < 192"
    using d by auto
  have "utf8_decode (of_nat (192 + ?n div 64) # of_nat (128 + ?n mod 64) # bs)
          = map_option (\<lambda>s. char_of (?n div 64 * 64 + ?n mod 64) # s) (utf8_decode bs)"
    using m by (simp add: Let_def u1 u2 del: of_nat_add)
  with False show ?thesis
    by (simp only: utf8_char_def Let_def if_False append_Cons append_Nil r char_of_codeUnit)
qed

lemma utf8_decode_encode_append:
  "utf8_decode (utf8_encode s @ bs) = map_option (\<lambda>t. s @ t) (utf8_decode bs)"
proof (induction s)
  case Nil
  show ?case by (simp add: utf8_encode_def option.map_ident)
next
  case (Cons c s)
  have "utf8_decode (utf8_encode (c # s) @ bs) = utf8_decode (utf8_char c @ (utf8_encode s @ bs))"
    by (simp add: utf8_encode_def)
  also have "\<dots> = map_option (\<lambda>t. c # t) (utf8_decode (utf8_encode s @ bs))"
    by (rule utf8_decode_char)
  finally show ?case
    by (simp add: Cons.IH option.map_comp comp_def)
qed

lemma utf8_decode_spaces: "utf8_decode (replicate n 0x20) = Some (replicate n (CHR '' ''))"
  by (induction n) (simp_all add: Let_def char_of_eq_iff)

lemma utf8_decode_padded:
  "utf8_decode (utf8_encode s @ replicate n 0x20) = Some (s @ replicate n (CHR '' ''))"
  by (simp add: utf8_decode_encode_append utf8_decode_spaces)

lemma stripTrailingSpaces_padded:
  assumes "s \<noteq> []" "last s \<noteq> CHR '' ''"
  shows "stripTrailingSpaces (s @ replicate n (CHR '' '')) = s"
proof -
  from assms obtain ys y where s: "s = ys @ [y]" "y \<noteq> CHR '' ''"
    by (cases s rule: rev_cases) auto
  have "dropWhile (\<lambda>c. c = CHR '' '') (replicate n (CHR '' '') @ y # rev ys) = y # rev ys"
    using s(2) by (induction n) simp_all
  then show ?thesis
    by (simp add: stripTrailingSpaces_def s)
qed


lemma char_eq_codeUnit: "c = d \<longleftrightarrow> codeUnit c = codeUnit d"
  by (auto simp: codeUnit_def)

lemma codeUnit_literals:
  "codeUnit (CHR 0x22) = 34" "codeUnit (CHR 0x5C) = 92" "codeUnit (CHR 0x08) = 8"
  "codeUnit (CHR 0x09) = 9" "codeUnit (CHR 0x0A) = 10" "codeUnit (CHR 0x0C) = 12"
  "codeUnit (CHR 0x0D) = 13" "codeUnit (CHR ''u'') = 117" "codeUnit (CHR ''b'') = 98"
  "codeUnit (CHR ''t'') = 116" "codeUnit (CHR ''n'') = 110" "codeUnit (CHR ''f'') = 102"
  "codeUnit (CHR ''r'') = 114" "codeUnit (CHR ''/'') = 47" "codeUnit (CHR ''0'') = 48"
  by (simp_all add: codeUnit_def)

lemma hexDigit_value: "d < 16 \<Longrightarrow> digitValue 16 (hexDigit d) = Some d"
proof -
  assume "d < 16"
  then have "d = 0 \<or> d = 1 \<or> d = 2 \<or> d = 3 \<or> d = 4 \<or> d = 5 \<or> d = 6 \<or> d = 7 \<or> d = 8
      \<or> d = 9 \<or> d = 10 \<or> d = 11 \<or> d = 12 \<or> d = 13 \<or> d = 14 \<or> d = 15"
    by presburger
  then show ?thesis
    by (elim disjE) (simp_all add: hexDigit_def digitValue_def codeUnit_def)
qed

lemma parseStringBody_escape_u:
  assumes "n < 32"
  shows "parseStringBody ([CHR 0x5C, CHR ''u'', CHR ''0'', CHR ''0'', hexDigit (n div 16),
            hexDigit (n mod 16)] @ t)
         = map_option (\<lambda>(s, r). (char_of n # s, r)) (parseStringBody t)"
proof -
  from assms have d: "n div 16 < 16" "n mod 16 < 16" by auto
  have z: "digitValue 16 (CHR ''0'') = Some 0"
    by (simp add: digitValue_def codeUnit_def)
  have v: "radixValue 16 [CHR ''0'', CHR ''0'', hexDigit (n div 16), hexDigit (n mod 16)] = n"
    by (simp add: radixValue_def z hexDigit_value[OF d(1)] hexDigit_value[OF d(2)])
  have a: "list_all (isRadixDigit 16)
      [CHR ''0'', CHR ''0'', hexDigit (n div 16), hexDigit (n mod 16)]"
    by (simp add: isRadixDigit_def z hexDigit_value[OF d(1)] hexDigit_value[OF d(2)])
  from assms have lt: "n < 256" by simp
  show ?thesis
    using a v lt by simp
qed

lemma char_of_codeUnit_eq: "codeUnit c = n \<Longrightarrow> c = char_of n"
  by (auto simp: char_of_codeUnit)

lemma parseStringBody_quoteChar:
  "parseStringBody (quoteChar c @ t) = map_option (\<lambda>(s, r). (c # s, r)) (parseStringBody t)"
proof -
  let ?n = "codeUnit c"
  have c: "c = char_of ?n" by (simp add: char_of_codeUnit)
  consider "?n = 8" | "?n = 9" | "?n = 10" | "?n = 12" | "?n = 13" | "?n = 34" | "?n = 92"
    | "?n < 32" "?n \<notin> {8, 9, 10, 12, 13}" | "32 \<le> ?n" "?n \<noteq> 34" "?n \<noteq> 92"
    by fastforce
  then show ?thesis
  proof cases
    case 1
    then have "c = CHR 0x08" by (auto dest!: char_of_codeUnit_eq simp: char_of_eq_iff)
    then show ?thesis by (simp add: quoteChar_def codeUnit_def unescape_def)
  next
    case 2
    then have "c = CHR 0x09" by (auto dest!: char_of_codeUnit_eq simp: char_of_eq_iff)
    then show ?thesis by (simp add: quoteChar_def codeUnit_def unescape_def)
  next
    case 3
    then have "c = CHR 0x0A" by (auto dest!: char_of_codeUnit_eq simp: char_of_eq_iff)
    then show ?thesis by (simp add: quoteChar_def codeUnit_def unescape_def)
  next
    case 4
    then have "c = CHR 0x0C" by (auto dest!: char_of_codeUnit_eq simp: char_of_eq_iff)
    then show ?thesis by (simp add: quoteChar_def codeUnit_def unescape_def)
  next
    case 5
    then have "c = CHR 0x0D" by (auto dest!: char_of_codeUnit_eq simp: char_of_eq_iff)
    then show ?thesis by (simp add: quoteChar_def codeUnit_def unescape_def)
  next
    case 6
    then have "c = CHR 0x22" by (auto dest!: char_of_codeUnit_eq simp: char_of_eq_iff)
    then show ?thesis by (simp add: quoteChar_def codeUnit_def unescape_def)
  next
    case 7
    then have "c = CHR 0x5C" by (auto dest!: char_of_codeUnit_eq simp: char_of_eq_iff)
    then show ?thesis by (simp add: quoteChar_def codeUnit_def unescape_def)
  next
    case 8
    then have q: "quoteChar c = [CHR 0x5C, CHR ''u'', CHR ''0'', CHR ''0'',
        hexDigit (?n div 16), hexDigit (?n mod 16)]"
      by (simp add: quoteChar_def Let_def)
    show ?thesis
      unfolding q using parseStringBody_escape_u[OF 8(1), of t] c by simp
  next
    case 9
    then have q: "quoteChar c = [c]"
      by (simp add: quoteChar_def Let_def)
    from 9 have ne: "c \<noteq> CHR 0x22" "c \<noteq> CHR 0x5C" "\<not> codeUnit c < 32"
      by (auto simp: codeUnit_literals)
    show ?thesis
      unfolding q using ne by simp
  qed
qed

lemma parseStringBody_quoted:
  "parseStringBody (concat (map quoteChar s) @ CHR 0x22 # rest) = Some (s, rest)"
proof (induction s)
  case Nil
  show ?case by simp
next
  case (Cons c s)
  have "parseStringBody (concat (map quoteChar (c # s)) @ CHR 0x22 # rest)
          = parseStringBody (quoteChar c @ (concat (map quoteChar s) @ CHR 0x22 # rest))"
    by simp
  also have "\<dots> = map_option (\<lambda>(s, r). (c # s, r))
                     (parseStringBody (concat (map quoteChar s) @ CHR 0x22 # rest))"
    by (rule parseStringBody_quoteChar)
  finally show ?case by (simp add: Cons.IH)
qed

text \<open>
  What the round trip needs of the two number conversions, on the finite numbers of a
  value: the text of a number is a number token, and reading it gives the number back.
\<close>

definition numTokenOk :: "string \<Rightarrow> bool" where
  "numTokenOk tok \<longleftrightarrow>
     tok \<noteq> [] \<and> list_all isNumChar tok \<and> (hd tok = CHR ''-'' \<or> isDigit (hd tok))"

fun codecOk :: "(real \<Rightarrow> string) \<Rightarrow> (string \<Rightarrow> real option) \<Rightarrow> jsval \<Rightarrow> bool" where
  "codecOk w r (JNum (Fin x)) = (numTokenOk (w x) \<and> r (w x) = Some x)"
| "codecOk w r (JArr vs) = list_all (codecOk w r) vs"
| "codecOk w r (JObj kvs) = list_all (\<lambda>(k, v). codecOk w r v) kvs"
| "codecOk w r _ = True"

definition noNumAhead :: "string \<Rightarrow> bool" where
  "noNumAhead rest \<longleftrightarrow> rest = [] \<or> \<not> isNumChar (hd rest)"

definition startChar :: "char \<Rightarrow> bool" where
  "startChar c \<longleftrightarrow> \<not> isJsonSpace c \<and> c \<noteq> CHR '']'' \<and> c \<noteq> CHR ''}''"

lemma numChar_start:
  assumes "c = CHR ''-'' \<or> isDigit c"
  shows "startChar c" "c \<noteq> CHR ''{''" "c \<noteq> CHR ''[''" "c \<noteq> CHR 0x22" "c \<noteq> CHR ''n''"
    "c \<noteq> CHR ''t''" "c \<noteq> CHR ''f''"
  using assms
  by (auto simp: startChar_def isJsonSpace_def isDigit_def codeUnit_def)

lemma skipSpace_start: "startChar c \<Longrightarrow> skipSpace (c # cs) = c # cs"
  by (simp add: skipSpace_def startChar_def)

lemma serialize_start:
  assumes "codecOk w r v"
  shows "\<exists>c cs. serialize w v = c # cs \<and> startChar c"
proof (cases v)
  case (JNum n)
  show ?thesis
  proof (cases n)
    case (Fin x)
    with JNum assms have t: "numTokenOk (w x)" by simp
    then obtain c cs where e: "w x = c # cs" by (cases "w x") (auto simp: numTokenOk_def)
    with t have "c = CHR ''-'' \<or> isDigit c" by (simp add: numTokenOk_def)
    then have "startChar c" by (rule numChar_start)
    with e JNum Fin show ?thesis by simp
  qed (simp_all add: JNum startChar_def isJsonSpace_def codeUnit_def)
qed (auto simp: startChar_def isJsonSpace_def codeUnit_def quoteJSONString_def)

lemma parseNumber_token:
  assumes "numTokenOk tok" "r tok = Some x" "noNumAhead rest"
  shows "parseNumber r (tok @ rest) = Some (JNum (Fin x), rest)"
proof -
  from assms(1) have a: "\<forall>c \<in> set tok. isNumChar c" by (simp add: numTokenOk_def list_all_iff)
  from assms(3) have "takeWhile isNumChar rest = []" "dropWhile isNumChar rest = rest"
    by (cases rest; simp add: noNumAhead_def)+
  with a have "takeWhile isNumChar (tok @ rest) = tok" "dropWhile isNumChar (tok @ rest) = rest"
    by (simp_all add: takeWhile_append2 dropWhile_append2)
  with assms(1,2) show ?thesis
    by (simp add: parseNumber_def numTokenOk_def Let_def)
qed


lemma startChar_literals:
  "startChar (CHR ''n'')" "startChar (CHR ''t'')" "startChar (CHR ''f'')" "startChar (CHR ''['')"
  "startChar (CHR ''{'')" "startChar (CHR 0x22)" "\<not> isJsonSpace (CHR '','')"
  "\<not> isJsonSpace (CHR '']'')" "\<not> isJsonSpace (CHR ''}'')" "\<not> isJsonSpace (CHR '':'')"
  by (simp_all add: startChar_def isJsonSpace_def codeUnit_def)

lemma noNumAhead_literals:
  "noNumAhead (CHR '','' # t)" "noNumAhead (CHR '']'' # t)" "noNumAhead (CHR ''}'' # t)"
  "noNumAhead []"
  by (simp_all add: noNumAhead_def isNumChar_def)

lemma parseValue_null: "parseValue r (Suc f) (''null'' @ rest) = Some (JNull, rest)"
  by (simp add: skipSpace_def isJsonSpace_def codeUnit_def)

lemma parseValue_true: "parseValue r (Suc f) (''true'' @ rest) = Some (JBool True, rest)"
  by (simp add: skipSpace_def isJsonSpace_def codeUnit_def)

lemma parseValue_false: "parseValue r (Suc f) (''false'' @ rest) = Some (JBool False, rest)"
  by (simp add: skipSpace_def isJsonSpace_def codeUnit_def)

lemma parseValue_string:
  "parseValue r (Suc f) (quoteJSONString s @ rest) = Some (JStr s, rest)"
  by (simp add: quoteJSONString_def skipSpace_def isJsonSpace_def codeUnit_def
      parseStringBody_quoted)

lemma parseValue_number:
  assumes "numTokenOk (w x)" "r (w x) = Some x" "noNumAhead rest"
  shows "parseValue r (Suc f) (w x @ rest) = Some (JNum (Fin x), rest)"
proof -
  from assms(1) obtain c cs where e: "w x = c # cs" and c: "c = CHR ''-'' \<or> isDigit c"
    by (cases "w x") (auto simp: numTokenOk_def)
  note n = numChar_start[OF c]
  have p: "parseNumber r (c # cs @ rest) = Some (JNum (Fin x), rest)"
    using parseNumber_token[of "w x" r x rest, OF assms] e by simp
  show ?thesis
    unfolding e using n p by (simp add: skipSpace_start)
qed

text \<open>The elements of a non-empty array, up to the closing bracket.\<close>

lemma parseElements_joined:
  assumes "vs \<noteq> []"
    and "\<And>v f rest. v \<in> set vs \<Longrightarrow> length (serialize w v) \<le> f \<Longrightarrow> noNumAhead rest \<Longrightarrow>
           parseValue r f (serialize w v @ rest) = Some (keptValue v, rest)"
    and "length (joinComma (map (serialize w) vs)) < f"
  shows "parseElements r f (joinComma (map (serialize w) vs) @ CHR '']'' # rest)
           = Some (map keptValue vs, rest)"
  using assms
proof (induction vs arbitrary: f)
  case Nil
  then show ?case by simp
next
  case (Cons v vs)
  from Cons.prems(3) obtain f' where f: "f = Suc f'" by (cases f) auto
  show ?case
  proof (cases vs)
    case Nil
    from Cons.prems(3) f Nil have l: "length (serialize w v) \<le> f'" by simp
    have "parseValue r f' (serialize w v @ CHR '']'' # rest) = Some (keptValue v, CHR '']'' # rest)"
      by (rule Cons.prems(2)) (simp_all add: l noNumAhead_literals)
    then show ?thesis
      by (simp add: f Nil skipSpace_def startChar_literals)
  next
    case (Cons v' vs')
    note vs = Cons
    let ?tail = "joinComma (map (serialize w) vs) @ CHR '']'' # rest"
    from Cons.prems(3) f vs have l: "length (serialize w v) \<le> f'"
      and l': "length (joinComma (map (serialize w) vs)) < f'"
      by simp_all
    have pv: "parseValue r f' (serialize w v @ CHR '','' # ?tail)
                = Some (keptValue v, CHR '','' # ?tail)"
      by (rule Cons.prems(2)) (simp_all add: l noNumAhead_literals)
    have pe: "parseElements r f' ?tail = Some (map keptValue vs, rest)"
    proof (rule Cons.IH)
      show "vs \<noteq> []" by (simp add: vs)
      show "length (joinComma (map (serialize w) vs)) < f'" by (rule l')
      show "parseValue r g (serialize w u @ t) = Some (keptValue u, t)"
        if "u \<in> set vs" "length (serialize w u) \<le> g" "noNumAhead t" for u g t
        using that by (intro Cons.prems(2)) simp_all
    qed
    have j: "joinComma (map (serialize w) (v # vs)) @ CHR '']'' # rest
               = serialize w v @ CHR '','' # ?tail"
      by (simp add: vs)
    show ?thesis
      unfolding j f by (simp add: pv pe skipSpace_def startChar_literals)
  qed
qed


text \<open>The members of a non-empty object, up to the closing brace.\<close>

definition memberText :: "(real \<Rightarrow> string) \<Rightarrow> string \<times> jsval \<Rightarrow> string" where
  "memberText w kv = (case kv of (k, v) \<Rightarrow> quoteJSONString k @ '':'' @ serialize w v)"

lemma parseMembers_joined:
  assumes "kvs \<noteq> []"
    and "\<And>k v f rest. (k, v) \<in> set kvs \<Longrightarrow> length (serialize w v) \<le> f \<Longrightarrow> noNumAhead rest \<Longrightarrow>
           parseValue r f (serialize w v @ rest) = Some (keptValue v, rest)"
    and "length (joinComma (map (memberText w) kvs)) < f"
  shows "parseMembers r f (joinComma (map (memberText w) kvs) @ CHR ''}'' # rest)
           = Some (map (\<lambda>(k, v). (k, keptValue v)) kvs, rest)"
  using assms
proof (induction kvs arbitrary: f)
  case Nil
  then show ?case by simp
next
  case (Cons kv kvs)
  obtain k v where kv: "kv = (k, v)" by (cases kv) auto
  from Cons.prems(3) obtain f' where f: "f = Suc f'" by (cases f) auto
  have key: "\<And>t. parseMembers r (Suc f') (quoteJSONString k @ CHR '':'' # t) =
      (case parseValue r f' t of
         None \<Rightarrow> None
       | Some (v, r') \<Rightarrow>
           (case skipSpace r' of
              [] \<Rightarrow> None
            | d # ds \<Rightarrow>
                if d = CHR '','' then
                  map_option (\<lambda>(kvs, t). ((k, v) # kvs, t)) (parseMembers r f' ds)
                else if d = CHR ''}'' then Some ([(k, v)], ds)
                else None))"
    by (simp add: quoteJSONString_def skipSpace_def startChar_literals isJsonSpace_def
        codeUnit_def parseStringBody_quoted)
  show ?case
  proof (cases kvs)
    case Nil
    from Cons.prems(3) f Nil kv have l: "length (serialize w v) \<le> f'"
      by (simp add: memberText_def)
    have pv: "parseValue r f' (serialize w v @ CHR ''}'' # rest)
                = Some (keptValue v, CHR ''}'' # rest)"
      by (rule Cons.prems(2)[of k]) (simp_all add: kv l noNumAhead_literals)
    have j: "joinComma (map (memberText w) (kv # kvs)) @ CHR ''}'' # rest
               = quoteJSONString k @ CHR '':'' # (serialize w v @ CHR ''}'' # rest)"
      by (simp add: Nil kv memberText_def)
    show ?thesis
      unfolding j f key by (simp add: pv kv Nil skipSpace_def startChar_literals)
  next
    case (Cons kv' kvs')
    note tl = Cons
    let ?tail = "joinComma (map (memberText w) kvs) @ CHR ''}'' # rest"
    have jl: "length (joinComma (map (memberText w) (kv # kvs)))
                = length (memberText w kv) + 1 + length (joinComma (map (memberText w) kvs))"
      by (simp add: tl)
    have ml: "length (memberText w kv) = length (quoteJSONString k) + 1 + length (serialize w v)"
      by (simp add: kv memberText_def)
    from Cons.prems(3) have l: "length (serialize w v) \<le> f'"
      and l': "length (joinComma (map (memberText w) kvs)) < f'"
      unfolding jl ml f by linarith+
    have pv: "parseValue r f' (serialize w v @ CHR '','' # ?tail)
                = Some (keptValue v, CHR '','' # ?tail)"
      by (rule Cons.prems(2)[of k]) (simp_all add: kv l noNumAhead_literals)
    have pm: "parseMembers r f' ?tail = Some (map (\<lambda>(k, v). (k, keptValue v)) kvs, rest)"
    proof (rule Cons.IH)
      show "kvs \<noteq> []" by (simp add: tl)
      show "length (joinComma (map (memberText w) kvs)) < f'" by (rule l')
      show "parseValue r g (serialize w u @ t) = Some (keptValue u, t)"
        if "(k', u) \<in> set kvs" "length (serialize w u) \<le> g" "noNumAhead t" for k' u g t
        using that by (intro Cons.prems(2)[of k']) simp_all
    qed
    have j: "joinComma (map (memberText w) (kv # kvs)) @ CHR ''}'' # rest
               = quoteJSONString k @ CHR '':'' # (serialize w v @ CHR '','' # ?tail)"
      by (simp add: tl kv memberText_def)
    show ?thesis
      unfolding j f key by (simp add: pv pm kv skipSpace_def startChar_literals)
  qed
qed

lemma serialize_nonempty: "codecOk w r v \<Longrightarrow> 0 < length (serialize w v)"
  using serialize_start[of w r v] by auto

theorem parseValue_serialize:
  "codecOk w r v \<Longrightarrow> length (serialize w v) \<le> f \<Longrightarrow> noNumAhead rest \<Longrightarrow>
     parseValue r f (serialize w v @ rest) = Some (keptValue v, rest)"
proof (induction v arbitrary: f rest)
  case JUndefined
  then obtain f' where "f = Suc f'" by (cases f) auto
  then show ?case using parseValue_null by simp
next
  case JNull
  then obtain f' where "f = Suc f'" by (cases f) auto
  then show ?case using parseValue_null by simp
next
  case (JBool b)
  then obtain f' where "f = Suc f'" by (cases f) (auto split: if_splits)
  then show ?case using parseValue_true parseValue_false by simp
next
  case (JNum n)
  show ?case
  proof (cases n)
    case (Fin x)
    from JNum.prems(1) Fin have ok: "numTokenOk (w x)" "r (w x) = Some x" by simp_all
    then have "w x \<noteq> []" by (simp add: numTokenOk_def)
    with JNum.prems(2) Fin obtain f' where "f = Suc f'" by (cases f) auto
    then show ?thesis
      using parseValue_number[of w x r rest, OF ok JNum.prems(3)] Fin by simp
  next
    case PosInf
    with JNum.prems obtain f' where "f = Suc f'" by (cases f) auto
    then show ?thesis using parseValue_null PosInf by simp
  next
    case NegInf
    with JNum.prems obtain f' where "f = Suc f'" by (cases f) auto
    then show ?thesis using parseValue_null NegInf by simp
  next
    case NaN
    with JNum.prems obtain f' where "f = Suc f'" by (cases f) auto
    then show ?thesis using parseValue_null NaN by simp
  qed
next
  case (JStr s)
  then obtain f' where "f = Suc f'" by (cases f) (auto simp: quoteJSONString_def)
  then show ?case using parseValue_string by simp
next
  case (JArr vs)
  from JArr.prems(2) obtain f' where f: "f = Suc f'" by (cases f) auto
  show ?case
  proof (cases vs)
    case Nil
    then show ?thesis
      by (simp add: f skipSpace_def startChar_literals isJsonSpace_def codeUnit_def)
  next
    case (Cons u us)
    from JArr.prems(1) have ok: "\<And>v. v \<in> set vs \<Longrightarrow> codecOk w r v"
      by (simp add: list_all_iff)
    from ok[of u] Cons obtain c cs where st: "serialize w u = c # cs" "startChar c"
      using serialize_start[of w r u] by auto
    from JArr.prems(2) f have l: "length (joinComma (map (serialize w) vs)) < f'" by simp
    have pe: "parseElements r f' (joinComma (map (serialize w) vs) @ CHR '']'' # rest)
                = Some (map keptValue vs, rest)"
    proof (rule parseElements_joined)
      show "vs \<noteq> []" by (simp add: Cons)
      show "length (joinComma (map (serialize w) vs)) < f'" by (rule l)
      show "parseValue r g (serialize w v @ t) = Some (keptValue v, t)"
        if "v \<in> set vs" "length (serialize w v) \<le> g" "noNumAhead t" for v g t
        using that ok by (intro JArr.IH) simp_all
    qed
    obtain js where j: "joinComma (map (serialize w) vs) = c # js"
      using st Cons by (cases us) auto
    from st(2) have c: "c \<noteq> CHR '']''" "skipSpace (c # js @ CHR '']'' # rest) = c # js @ CHR '']'' # rest"
      by (simp_all add: startChar_def skipSpace_def)
    show ?thesis
      using pe c unfolding j
      by (simp add: f j skipSpace_def startChar_literals isJsonSpace_def codeUnit_def)
  qed
next
  case (JObj kvs)
  from JObj.prems(2) obtain f' where f: "f = Suc f'" by (cases f) auto
  let ?ms = "filter (\<lambda>(k, v). v \<noteq> JUndefined) kvs"
  have mt: "memberText w = (\<lambda>p. quoteJSONString (fst p) @ CHR '':'' # serialize w (snd p))"
    by (auto simp: memberText_def fun_eq_iff)
  have ser: "serialize w (JObj kvs) = CHR ''{'' # joinComma (map (memberText w) ?ms) @ ''}''"
    by (simp add: mt case_prod_unfold)
  show ?case
  proof (cases ?ms)
    case Nil
    then show ?thesis
      unfolding ser
      by (simp add: f skipSpace_def startChar_literals isJsonSpace_def codeUnit_def)
  next
    case (Cons m ms)
    from JObj.prems(1) have ok: "\<And>k v. (k, v) \<in> set kvs \<Longrightarrow> codecOk w r v"
      by (auto simp: list_all_iff)
    from JObj.prems(2) f have l: "length (joinComma (map (memberText w) ?ms)) < f'"
      unfolding ser by simp
    have pm: "parseMembers r f' (joinComma (map (memberText w) ?ms) @ CHR ''}'' # rest)
                = Some (map (\<lambda>(k, v). (k, keptValue v)) ?ms, rest)"
    proof (rule parseMembers_joined)
      show "?ms \<noteq> []" by (simp add: Cons)
      show "length (joinComma (map (memberText w) ?ms)) < f'" by (rule l)
      show "parseValue r g (serialize w v @ t) = Some (keptValue v, t)"
        if "(k, v) \<in> set ?ms" "length (serialize w v) \<le> g" "noNumAhead t" for k v g t
      proof -
        from that(1) have m: "(k, v) \<in> set kvs" by simp
        then have "v \<in> Basic_BNFs.snds (k, v)" by simp
        from JObj.IH[OF m this ok[OF m] that(2,3)] show ?thesis .
      qed
    qed
    obtain k v where m: "m = (k, v)" by (cases m) auto
    obtain js where j: "joinComma (map (memberText w) ?ms) = CHR 0x22 # js"
      unfolding Cons by (cases ms) (auto simp: m memberText_def quoteJSONString_def)
    show ?thesis
      using pm unfolding ser j
      by (simp add: f skipSpace_def startChar_literals isJsonSpace_def codeUnit_def)
  qed
qed

lemma JSON_parse_serialize:
  assumes "codecOk w r v"
  shows "JSON_parse r (serialize w v) = Some (keptValue v)"
proof -
  have "parseValue r (length (serialize w v)) (serialize w v @ []) = Some (keptValue v, [])"
    by (rule parseValue_serialize[OF assms]) (simp_all add: noNumAhead_literals)
  then show ?thesis
    by (simp add: JSON_parse_def skipSpace_def)
qed

lemma u32_digits:
  fixes n :: nat
  assumes "n < 2 ^ 32"
  shows "n mod 256 + 256 * (n div 256 mod 256) + 65536 * (n div 65536 mod 256)
           + 16777216 * (n div 16777216 mod 256) = n"
proof -
  define a where "a = n div 256"
  define b where "b = a div 256"
  define c where "c = b div 256"
  have n: "n = n mod 256 + 256 * a" by (simp add: a_def)
  have a: "a = a mod 256 + 256 * b" by (simp add: b_def)
  have b: "b = b mod 256 + 256 * c" by (simp add: c_def)
  have d2: "n div 65536 = b"
    unfolding b_def a_def by (simp add: div_mult2_eq[symmetric])
  have d3: "n div 16777216 = c"
    unfolding c_def b_def a_def by (simp add: div_mult2_eq[symmetric])
  from assms have "c < 256"
    unfolding d3[symmetric] by (simp add: less_mult_imp_div_less)
  then have cm: "c mod 256 = c" by simp
  have "n mod 256 + 256 * (a mod 256) + 65536 * (b mod 256) + 16777216 * c
          = n mod 256 + 256 * (a mod 256 + 256 * (b mod 256 + 256 * c))"
    by simp
  also have "\<dots> = n" using n a b by simp
  finally show ?thesis
    by (simp add: d2 d3 cm a_def[symmetric])
qed

lemma read_u32le_at:
  assumes "length xs = off" "n < 2 ^ 32"
  shows "read_u32le (xs @ u32le n @ ys) off = n"
proof -
  have nth: "(xs @ u32le n @ ys) ! (off + k) = u32le n ! k" if "k < 4" for k
    using that assms(1) by (simp add: nth_append length_u32le)
  have "read_u32le (xs @ u32le n @ ys) off =
      unat (u32le n ! 0) + 256 * unat (u32le n ! 1) + 65536 * unat (u32le n ! 2)
        + 16777216 * unat (u32le n ! 3)"
    using nth[of 0] nth[of 1] nth[of 2] nth[of 3] by (simp add: read_u32le_def)
  also have "\<dots> = n mod 256 + 256 * (n div 256 mod 256) + 65536 * (n div 65536 mod 256)
           + 16777216 * (n div 16777216 mod 256)"
    by (simp add: u32le_def unat_of_nat)
  also have "\<dots> = n" by (rule u32_digits[OF assms(2)])
  finally show ?thesis .
qed


text \<open>The bytes of a container with the given total-length field and padded chunks.\<close>

definition glbLayout :: "nat \<Rightarrow> byte list \<Rightarrow> byte list \<Rightarrow> byte list" where
  "glbLayout totalLength paddedJson paddedBinary =
     u32le 0x46546c67 @ u32le 2 @ u32le totalLength @ u32le (length paddedJson)
       @ u32le 0x4e4f534a @ paddedJson @ u32le (length paddedBinary) @ u32le 0x004e4942
       @ paddedBinary"

definition padTo4 :: "byte \<Rightarrow> byte list \<Rightarrow> byte list" where
  "padTo4 filler bytes = bytes @ replicate (align (length bytes) 4 - length bytes) filler"

lemma length_padTo4: "length (padTo4 filler bytes) = align (length bytes) 4"
  using align4_ge[of "length bytes"] by (simp add: padTo4_def)

lemma length_glbLayout:
  "length (glbLayout t pj pb) = 12 + 8 + length pj + 8 + length pb"
  by (simp add: glbLayout_def length_u32le)

lemma parseGlb_glbLayout:
  assumes "t < 2 ^ 32" "length pj < 2 ^ 32" "length pb < 2 ^ 32"
  shows "parseGlb (glbLayout t pj pb) = Some (t, pj, pb)"
proof -
  let ?g = "glbLayout t pj pb"
  have r0: "read_u32le ?g 0 = 0x46546c67"
    unfolding glbLayout_def using read_u32le_at[of "[]" 0 "0x46546c67"] by simp
  have r4: "read_u32le ?g 4 = 2"
    unfolding glbLayout_def
    using read_u32le_at[of "u32le 0x46546c67" 4 2] by (simp add: length_u32le)
  have r8: "read_u32le ?g 8 = t"
    unfolding glbLayout_def
    using read_u32le_at[of "u32le 0x46546c67 @ u32le 2" 8 t] assms(1)
    by (simp add: length_u32le)
  have r12: "read_u32le ?g 12 = length pj"
    unfolding glbLayout_def
    using read_u32le_at[of "u32le 0x46546c67 @ u32le 2 @ u32le t" 12 "length pj"] assms(2)
    by (simp add: length_u32le)
  have r16: "read_u32le ?g 16 = 0x4e4f534a"
    unfolding glbLayout_def
    using read_u32le_at[of "u32le 0x46546c67 @ u32le 2 @ u32le t @ u32le (length pj)" 16
        "0x4e4f534a"]
    by (simp add: length_u32le)
  have rb: "read_u32le ?g (20 + length pj) = length pb"
    unfolding glbLayout_def
    using read_u32le_at[of "u32le 0x46546c67 @ u32le 2 @ u32le t @ u32le (length pj)
        @ u32le 0x4e4f534a @ pj" "20 + length pj" "length pb"] assms(3)
    by (simp add: length_u32le)
  have rt: "read_u32le ?g (20 + length pj + 4) = 0x004e4942"
    unfolding glbLayout_def
    using read_u32le_at[of "u32le 0x46546c67 @ u32le 2 @ u32le t @ u32le (length pj)
        @ u32le 0x4e4f534a @ pj @ u32le (length pb)" "20 + length pj + 4" "0x004e4942"]
    by (simp add: length_u32le)
  have d1: "take (length pj) (drop 20 ?g) = pj"
    by (simp add: glbLayout_def length_u32le)
  have d2: "take (length pb) (drop (20 + length pj + 8) ?g) = pb"
    by (simp add: glbLayout_def length_u32le)
  show ?thesis
    unfolding parseGlb_def Let_def r0 r4 r8 r12 r16 rb rt d1 d2
    by (simp add: length_glbLayout)
qed

lemma buildGlb_cases:
  "buildGlb w json binary =
     (if json = JUndefined then Inl TypeError
      else if 12 + 8 + align (length (utf8_encode (serialize w json))) 4 + 8
                + align (length binary) 4 < 2 ^ 32
      then Inr (glbLayout (12 + 8 + align (length (utf8_encode (serialize w json))) 4 + 8
                             + align (length binary) 4)
                  (padTo4 0x20 (utf8_encode (serialize w json))) (padTo4 0 binary))
      else Inl RangeError)"
proof -
  have p: "(if 0 < align (length bs) 4 - length bs
            then bs @ replicate (align (length bs) 4 - length bs) filler else bs)
           = padTo4 filler bs" for bs :: "byte list" and filler
    by (simp add: padTo4_def)
  show ?thesis
    unfolding buildGlb_def JSON_stringify_def Let_def p
    by (simp add: bind_result_def writeUInt32LE_def glbLayout_def length_padTo4)
qed


subsection \<open>When the text denotes the value itself\<close>

fun plainValue :: "jsval \<Rightarrow> bool" where
  "plainValue JUndefined = False"
| "plainValue (JNum n) = isFinite n"
| "plainValue (JArr vs) = list_all plainValue vs"
| "plainValue (JObj kvs) = list_all (\<lambda>(k, v). plainValue v) kvs"
| "plainValue _ = True"

lemma keptValue_plain: "plainValue v \<Longrightarrow> keptValue v = v"
proof (induction v)
  case (JArr vs)
  then show ?case by (simp add: list_all_iff map_idI)
next
  case (JObj kvs)
  then have a: "\<And>k v. (k, v) \<in> set kvs \<Longrightarrow> plainValue v \<and> keptValue v = v"
    by (fastforce simp: list_all_iff)
  then have f: "filter (\<lambda>(k, v). v \<noteq> JUndefined) kvs = kvs"
    by (intro filter_True) force
  have "map (\<lambda>(k, v). (k, keptValue v)) kvs = kvs"
    using a by (intro map_idI) auto
  with f show ?case by simp
qed simp_all

text \<open>The bounds of a position accessor are finite when the unit has a vertex and all
  its position values are finite.\<close>

definition finitePositions :: "Float32Array \<Rightarrow> bool" where
  "finitePositions values \<longleftrightarrow> 3 \<le> length values \<and> list_all (\<lambda>w. isFinite (f32_value w)) values"

definition finiteTriple :: "jsnum list \<Rightarrow> bool" where
  "finiteTriple xs \<longleftrightarrow> length xs = 3 \<and> list_all isFinite xs"

lemma finiteTriple_update:
  "finiteTriple xs \<Longrightarrow> isFinite x \<Longrightarrow> finiteTriple (xs[k := x])"
  by (auto simp: finiteTriple_def list_all_iff dest!: subsetD[OF set_update_subset_insert])

lemma not_lt_NaN: "\<not> (NaN < (a::jsnum))" "\<not> ((a::jsnum) < NaN)"
  by (cases a; simp add: less_jsnum_def)+

lemma minmax_step_finite:
  assumes "finiteTriple (fst mm)" "finiteTriple (snd mm)"
    and "\<And>k. isFinite (f32_at vals k) \<or> f32_at vals k = NaN"
  shows "finiteTriple (fst (minmax_step vals mm i)) \<and> finiteTriple (snd (minmax_step vals mm i))"
proof -
  have u: "finiteTriple (if c then xs[k := f32_at vals j] else xs)"
    if "finiteTriple xs" "c \<longrightarrow> \<not> (f32_at vals j = NaN)" for c xs k j
    using that assms(3)[of j] by (auto intro: finiteTriple_update)
  show ?thesis
    unfolding minmax_step_def Let_def fst_conv snd_conv
    by (intro conjI u assms(1,2)) (auto simp: not_lt_NaN)
qed

lemma minmax_loop_finite:
  "finiteTriple (fst mm) \<Longrightarrow> finiteTriple (snd mm) \<Longrightarrow>
   (\<And>k. isFinite (f32_at vals k) \<or> f32_at vals k = NaN) \<Longrightarrow>
   finiteTriple (fst (minmax_loop vals i mm)) \<and> finiteTriple (snd (minmax_loop vals i mm))"
proof (induction vals i mm rule: minmax_loop.induct)
  case (1 vals i mm)
  show ?case
  proof (cases "i < length vals")
    case True
    note st = minmax_step_finite[OF "1.prems", of i]
    have e: "minmax_loop vals i mm = minmax_loop vals (i + 3) (minmax_step vals mm i)"
      using True by (subst minmax_loop.simps) simp
    from "1.IH"[OF True conjunct1[OF st] conjunct2[OF st] "1.prems"(3)] show ?thesis
      unfolding e .
  next
    case False
    then have e: "minmax_loop vals i mm = mm"
      by (subst minmax_loop.simps) simp
    from "1.prems"(1,2) show ?thesis unfolding e by simp
  qed
qed

lemma f32_at_finite_or_NaN:
  assumes "list_all (\<lambda>w. isFinite (f32_value w)) vals"
  shows "isFinite (f32_at vals k) \<or> f32_at vals k = NaN"
  using assms by (simp add: f32_at_def list_all_length)

lemma computeMinMax_finite:
  assumes "finitePositions vals"
  shows "finiteTriple (fst (computeMinMax vals)) \<and> finiteTriple (snd (computeMinMax vals))"
proof -
  from assms have l3: "3 \<le> length vals"
    and fin: "list_all (\<lambda>w. isFinite (f32_value w)) vals"
    by (simp_all add: finitePositions_def)
  from l3 have len: "0 < length vals" "1 < length vals" "2 < length vals"
    by linarith+
  note fn = f32_at_finite_or_NaN[OF fin]
  let ?init = "([PosInf, PosInf, PosInf], [NegInf, NegInf, NegInf])"
  obtain x y z where v: "f32_at vals 0 = Fin x" "f32_at vals 1 = Fin y" "f32_at vals 2 = Fin z"
    using len fin
    by (metis f32_at_def isFinite.elims(2) list_all_length)
  from v have v': "f32_at vals (Suc 0) = Fin y" "f32_at vals (Suc (Suc 0)) = Fin z"
    by (simp_all add: numeral_2_eq_2)
  have s: "minmax_step vals ?init 0 = ([Fin x, Fin y, Fin z], [Fin x, Fin y, Fin z])"
    by (simp add: minmax_step_def Let_def v v' less_jsnum_def)
  have "computeMinMax vals = minmax_loop vals 3 (minmax_step vals ?init 0)"
    unfolding computeMinMax_def using len by (subst minmax_loop.simps) simp
  moreover have "finiteTriple (fst (minmax_step vals ?init 0))"
    "finiteTriple (snd (minmax_step vals ?init 0))"
    by (simp_all add: s finiteTriple_def)
  ultimately show ?thesis
    using minmax_loop_finite[OF _ _ fn, of "minmax_step vals ?init 0" 3] by simp
qed


text \<open>The scene description of units with finite positions has no number that is not
  finite and no property left undefined.\<close>

definition accessorPlain :: "Accessor \<Rightarrow> bool" where
  "accessorPlain a \<longleftrightarrow>
     isFinite (count a)
     \<and> (case min_bounds a of None \<Rightarrow> True | Some mn \<Rightarrow> list_all isFinite mn)
     \<and> (case max_bounds a of None \<Rightarrow> True | Some mx \<Rightarrow> list_all isFinite mx)"

definition packPlain :: "BufferView list \<Rightarrow> Accessor list \<Rightarrow> bool" where
  "packPlain views accs \<longleftrightarrow>
     list_all (\<lambda>bv. target bv \<noteq> None) views \<and> list_all accessorPlain accs"

lemma addBufferView_views:
  assumes "addBufferView chunks views data len (Some t) = (chunks', views', idx, len')"
  shows "list_all (\<lambda>bv. target bv \<noteq> None) views
           \<Longrightarrow> list_all (\<lambda>bv. target bv \<noteq> None) views'"
  using assms by (auto simp: addBufferView_def Let_def split: if_splits)

lemma packGeometry_plain:
  assumes "packPlain (bufferViews st) (accessors st)" "finitePositions (positions (fst gi))"
  shows "packPlain (bufferViews (packGeometry st gi)) (accessors (packGeometry st gi))"
proof -
  from assms(1) have v0: "list_all (\<lambda>bv. target bv \<noteq> None) (bufferViews st)"
    and a0: "list_all accessorPlain (accessors st)"
    by (simp_all add: packPlain_def)
  obtain c1 v1 i1 l1 where p1:
    "addBufferView (bufferChunks st) (bufferViews st) (positions (fst gi)) (bufferLength st)
       (Some 34962) = (c1, v1, i1, l1)"
    by (metis prod_cases4)
  note w1 = addBufferView_views[OF p1 v0]
  obtain mn mx where mm: "computeMinMax (positions (fst gi)) = (mn, mx)"
    by (cases "computeMinMax (positions (fst gi))") auto
  from computeMinMax_finite[OF assms(2)] mm
  have fb: "list_all isFinite mn" "list_all isFinite mx"
    by (simp_all add: finiteTriple_def)
  show ?thesis
  proof (cases "normals (fst gi)")
    case None
    note n = None
    show ?thesis
    proof (cases "colors (fst gi)")
      case None
      with n p1 mm w1 a0 fb show ?thesis
        by (simp add: packGeometry_def Let_def packPlain_def accessorPlain_def)
    next
      case (Some cs)
      obtain c3 v3 i3 l3 where p3: "addBufferView c1 v1 cs l1 (Some 34962) = (c3, v3, i3, l3)"
        by (metis prod_cases4)
      note w3 = addBufferView_views[OF p3 w1]
      with n Some p1 p3 mm a0 fb show ?thesis
        by (simp add: packGeometry_def Let_def packPlain_def accessorPlain_def)
    qed
  next
    case (Some ns)
    note n = Some
    obtain c2 v2 i2 l2 where p2: "addBufferView c1 v1 ns l1 (Some 34962) = (c2, v2, i2, l2)"
      by (metis prod_cases4)
    note w2 = addBufferView_views[OF p2 w1]
    show ?thesis
    proof (cases "colors (fst gi)")
      case None
      with n p1 p2 mm w2 a0 fb show ?thesis
        by (simp add: packGeometry_def Let_def packPlain_def accessorPlain_def)
    next
      case (Some cs)
      obtain c3 v3 i3 l3 where p3: "addBufferView c2 v2 cs l2 (Some 34962) = (c3, v3, i3, l3)"
        by (metis prod_cases4)
      note w3 = addBufferView_views[OF p3 w2]
      with n Some p1 p2 p3 mm a0 fb show ?thesis
        by (simp add: packGeometry_def Let_def packPlain_def accessorPlain_def)
    qed
  qed
qed

lemma foldl_packGeometry_plain:
  "packPlain (bufferViews st) (accessors st) \<Longrightarrow>
   (\<And>gi. gi \<in> set gis \<Longrightarrow> finitePositions (positions (fst gi))) \<Longrightarrow>
   packPlain (bufferViews (foldl packGeometry st gis)) (accessors (foldl packGeometry st gis))"
  by (induction gis arbitrary: st) (simp_all add: packGeometry_plain)

lemma plainValue_parts:
  "plainValue (num n)"
  "target bv \<noteq> None \<Longrightarrow> plainValue (bufferView_value bv)"
  "accessorPlain a \<Longrightarrow> plainValue (accessor_value a)"
  "plainValue (mesh_value m)"
  "plainValue (node_value nd)"
  by (auto simp: num_def bufferView_value_def accessor_value_def accessorPlain_def mesh_value_def
      node_value_def list_all_iff split: option.splits prod.splits)

lemma plainValue_json_value:
  assumes "buildGltfCore geometries = (json, binary)"
    and "\<And>g. g \<in> set geometries \<Longrightarrow> finitePositions (positions g)"
  shows "plainValue (json_value json)"
proof -
  let ?init = "\<lparr>bufferChunks = [], bufferViews = [], accessors = [], meshes = [],
                 nodes = [], bufferLength = 0\<rparr>"
  let ?fin = "foldl packGeometry ?init (enumerate_from0 geometries)"
  have "packPlain (bufferViews ?init) (accessors ?init)" by (simp add: packPlain_def)
  moreover have "finitePositions (positions (fst gi))"
    if "gi \<in> set (enumerate_from0 geometries)" for gi
  proof -
    obtain g i where gi: "gi = (g, i)" by (cases gi) auto
    with that have "g \<in> set geometries"
      unfolding enumerate_from0_def by (auto dest: set_zip_leftD)
    with assms(2) gi show ?thesis by simp
  qed
  ultimately have pp: "packPlain (bufferViews ?fin) (accessors ?fin)"
    by (rule foldl_packGeometry_plain)
  from assms(1) have j: "json_bufferViews json = bufferViews ?fin"
    "json_accessors json = accessors ?fin"
    by (auto simp: buildGltfCore_def padBufferEnd_def Let_def split: if_splits)
  show ?thesis
    using pp unfolding json_value_def j[symmetric] packPlain_def
    by (simp add: plainValue_parts list_all_iff j)
qed


lemma buildGltfCore_aligned:
  assumes "buildGltfCore geometries = (json, binary)"
  shows "(\<forall>bv \<in> set (json_bufferViews json). 4 dvd byteOffset bv)
       \<and> 4 dvd buffers_byteLength json
       \<and> buffers_byteLength json = length binary"
proof -
  let ?init = "\<lparr>bufferChunks = [], bufferViews = [], accessors = [], meshes = [],
                 nodes = [], bufferLength = 0\<rparr>"
  let ?fin = "foldl packGeometry ?init (enumerate_from0 geometries)"
  have "pack_inv (bufferChunks ?init) (bufferViews ?init) (bufferLength ?init)"
    by (simp add: pack_inv_def)
  then have inv: "pack_inv (bufferChunks ?fin) (bufferViews ?fin) (bufferLength ?fin)"
    using foldl_packGeometry_inv[of ?init "enumerate_from0 geometries"] by blast
  have d: "4 dvd align (bufferLength ?fin) 4" by (rule align4_dvd)
  have g: "bufferLength ?fin \<le> align (bufferLength ?fin) 4" by (rule align4_ge)
  from assms inv d g show ?thesis
    unfolding buildGltfCore_def padBufferEnd_def Let_def pack_inv_def Buffer_concat_def
    by (auto split: if_splits)
qed

lemma align4_id: "4 dvd n \<Longrightarrow> align n 4 = n"
  by (auto simp: align_def Let_def)

lemma padTo4_aligned: "4 dvd length bytes \<Longrightarrow> padTo4 filler bytes = bytes"
  by (simp add: padTo4_def align4_id)

lemma serialize_object_last:
  "serialize w (JObj kvs) \<noteq> [] \<and> last (serialize w (JObj kvs)) \<noteq> CHR '' ''"
  by simp

lemma readJsonChunk_glbLayout:
  assumes "codecOk w r (JObj kvs)" "t < 2 ^ 32"
    "length (padTo4 0x20 (utf8_encode (serialize w (JObj kvs)))) < 2 ^ 32" "length pb < 2 ^ 32"
  shows "readJsonChunk r (glbLayout t (padTo4 0x20 (utf8_encode (serialize w (JObj kvs)))) pb)
           = Some (keptValue (JObj kvs))"
proof -
  let ?text = "serialize w (JObj kvs)"
  let ?n = "align (length (utf8_encode ?text)) 4 - length (utf8_encode ?text)"
  have d: "utf8_decode (padTo4 0x20 (utf8_encode ?text)) = Some (?text @ replicate ?n (CHR '' ''))"
    unfolding padTo4_def by (rule utf8_decode_padded)
  have st: "stripTrailingSpaces (?text @ replicate ?n (CHR '' '')) = ?text"
    using serialize_object_last[of w kvs] by (intro stripTrailingSpaces_padded) simp_all
  show ?thesis
    unfolding readJsonChunk_def parseGlb_glbLayout[OF assms(2,3,4)]
    by (simp only: option.case prod.case d st JSON_parse_serialize[OF assms(1)])
qed

end
